theory Spec2Isabelle
  imports Complex_Main "HOL-Library.Sublist"
begin

text \<open>
  MetaStamp stamps the date and time a photo was taken onto the photo. This theory embeds
  the four parts of its stamping pipeline and proves what they do: the format engine
  (\<open>formatDate\<close> in \<open>utils/formatPresets.ts\<close>), the metadata resolver
  (\<open>extractImageMetadata\<close> in \<open>App.tsx\<close>), the overlay compositor (the drawing part of
  \<open>processImage\<close>) and the batch orchestrator (\<open>handleFiles\<close> and \<open>handleClearAll\<close>).
  The collaborators of the pipeline, the EXIF decoder, the canvas and the image decoder,
  are not embedded: what they return is an input of the functions below.
\<close>

section \<open>JavaScript values used by the format engine\<close>

text \<open>
  A JavaScript string is a \<open>string\<close>, the list of its characters. The tokens of the format
  engine and everything it inserts are ASCII, so an occurrence of a token is the same
  whether the text around it is read as UTF-16 code units or as bytes.
\<close>

text \<open>
  A JavaScript \<open>number\<close> as the format engine meets it: the getters of a \<open>Date\<close> return an
  integer, or \<open>NaN\<close> when the date is an Invalid Date.
\<close>

datatype number = NaN | Num int

text \<open>
  A \<open>Date\<close> is modelled by the local-time components its getters return:
  \<open>Date year monthIndex day hours minutes seconds\<close> (the month index counts from 0, as
  \<open>getMonth\<close> does). \<open>Invalid_Date\<close> is what \<open>new Date(x)\<close> yields on input it cannot read.
\<close>

datatype date = Invalid_Date | Date int nat nat nat nat nat

fun getFullYear :: "date \<Rightarrow> number" where
  "getFullYear Invalid_Date = NaN"
| "getFullYear (Date y mo d h mi s) = Num y"

fun getMonth :: "date \<Rightarrow> number" where
  "getMonth Invalid_Date = NaN"
| "getMonth (Date y mo d h mi s) = Num (int mo)"

fun getDate :: "date \<Rightarrow> number" where
  "getDate Invalid_Date = NaN"
| "getDate (Date y mo d h mi s) = Num (int d)"

fun getHours :: "date \<Rightarrow> number" where
  "getHours Invalid_Date = NaN"
| "getHours (Date y mo d h mi s) = Num (int h)"

fun getMinutes :: "date \<Rightarrow> number" where
  "getMinutes Invalid_Date = NaN"
| "getMinutes (Date y mo d h mi s) = Num (int mi)"

fun getSeconds :: "date \<Rightarrow> number" where
  "getSeconds Invalid_Date = NaN"
| "getSeconds (Date y mo d h mi s) = Num (int s)"

subsection \<open>Number.prototype.toString, String.prototype.padStart\<close>

fun nat_toString :: "nat \<Rightarrow> string" where
  "nat_toString n =
     (if n < 10 then [''0123456789'' ! n]
      else nat_toString (n div 10) @ [''0123456789'' ! (n mod 10)])"

declare nat_toString.simps [simp del]

text \<open>
  \<open>n.toString()\<close> on the numbers a date getter returns: decimal digits, a leading minus sign
  for a negative year, \<open>NaN\<close> for an Invalid Date.
\<close>

fun toString :: "number \<Rightarrow> string" where
  "toString NaN = ''NaN''"
| "toString (Num i) = (if i < 0 then CHR ''-'' # nat_toString (nat (- i)) else nat_toString (nat i))"

text \<open>\<open>s.padStart(targetLength, c)\<close> for a one-character filler: nothing is added to a
  string that is already long enough (the subtraction on \<open>nat\<close> stops at 0).\<close>

definition padStart :: "string \<Rightarrow> nat \<Rightarrow> char \<Rightarrow> string" where
  "padStart s targetLength c = replicate (targetLength - length s) c @ s"

text \<open>\<open>const pad = (n: number) => n.toString().padStart(2, "0")\<close>\<close>

definition pad :: "number \<Rightarrow> string" where
  "pad n = padStart (toString n) 2 CHR ''0''"

subsection \<open>Arithmetic and comparison on numbers\<close>

text \<open>\<open>a % b\<close>: the remainder takes the sign of the dividend; \<open>NaN\<close> and a zero divisor
  give \<open>NaN\<close>.\<close>

fun js_rem :: "number \<Rightarrow> number \<Rightarrow> number" where
  "js_rem (Num a) (Num b) = (if b = 0 then NaN else Num (sgn a * (\<bar>a\<bar> mod \<bar>b\<bar>)))"
| "js_rem _ _ = NaN"

text \<open>Truthiness of a number: \<open>0\<close> and \<open>NaN\<close> are falsy.\<close>

fun truthy_number :: "number \<Rightarrow> bool" where
  "truthy_number NaN = False"
| "truthy_number (Num i) = (i \<noteq> 0)"

text \<open>\<open>a || b\<close> on numbers.\<close>

definition js_or :: "number \<Rightarrow> number \<Rightarrow> number" where
  "js_or a b = (if truthy_number a then a else b)"

text \<open>\<open>a >= b\<close>: false as soon as one side is \<open>NaN\<close>.\<close>

fun js_ge :: "number \<Rightarrow> number \<Rightarrow> bool" where
  "js_ge (Num a) (Num b) = (b \<le> a)"
| "js_ge _ _ = False"

fun js_add :: "number \<Rightarrow> number \<Rightarrow> number" where
  "js_add (Num a) (Num b) = Num (a + b)"
| "js_add _ _ = NaN"

subsection \<open>Array lookup and String.prototype.replace\<close>

text \<open>\<open>xs[i]\<close>: \<open>None\<close> stands for \<open>undefined\<close>, the value of a lookup outside the array
  or at \<open>NaN\<close>.\<close>

fun array_get :: "'a list \<Rightarrow> number \<Rightarrow> 'a option" where
  "array_get xs NaN = None"
| "array_get xs (Num i) = (if 0 \<le> i \<and> nat i < length xs then Some (xs ! nat i) else None)"

text \<open>The replacement argument of \<open>replace\<close> is converted to a string: \<open>undefined\<close>
  becomes the text \<open>undefined\<close>.\<close>

fun replaceValue :: "string option \<Rightarrow> string" where
  "replaceValue None = ''undefined''"
| "replaceValue (Some s) = s"

text \<open>\<open>indexOf s t\<close> is the position of the leftmost occurrence of \<open>t\<close> in \<open>s\<close>, found
  by trying each position from the left; \<open>None\<close> when there is none.\<close>

fun indexOf :: "string \<Rightarrow> string \<Rightarrow> nat option" where
  "indexOf [] t = (if t = [] then Some 0 else None)"
| "indexOf (c # cs) t =
     (if prefix t (c # cs) then Some 0 else map_option Suc (indexOf cs t))"

text \<open>
  \<open>s.replace(t, r)\<close> with a string pattern \<open>t\<close>: the text before the leftmost occurrence,
  the replacement, the text after the occurrence; \<open>s\<close> itself when \<open>t\<close> does not occur.
  JavaScript expands \<open>$\<close> patterns of the replacement; none of the replacements of
  \<open>formatDate\<close> holds a \<open>$\<close> (lemma \<open>replacements_no_dollar\<close>), so the replacement is
  inserted as it is.
\<close>

definition replace :: "string \<Rightarrow> string \<Rightarrow> string \<Rightarrow> string" where
  "replace s t r =
     (case indexOf s t of
        None \<Rightarrow> s
      | Some i \<Rightarrow> take i s @ r @ drop (i + length t) s)"

section \<open>Format engine (utils/formatPresets.ts)\<close>

definition MONTH_NAMES :: "string list" where
  "MONTH_NAMES =
     [''January'', ''February'', ''March'', ''April'', ''May'', ''June'',
      ''July'', ''August'', ''September'', ''October'', ''November'', ''December'']"

definition MONTH_SHORT :: "string list" where
  "MONTH_SHORT =
     [''Jan'', ''Feb'', ''Mar'', ''Apr'', ''May'', ''Jun'',
      ''Jul'', ''Aug'', ''Sep'', ''Oct'', ''Nov'', ''Dec'']"

text \<open>\<open>const hours24 = date.getHours()\<close>, \<open>const hours12 = hours24 % 12 || 12\<close> and
  \<open>const ampm = hours24 >= 12 ? "PM" : "AM"\<close>, as functions of the date.\<close>

definition hours12_of :: "date \<Rightarrow> number" where
  "hours12_of d = js_or (js_rem (getHours d) (Num 12)) (Num 12)"

definition ampm_of :: "date \<Rightarrow> string" where
  "ampm_of d = (if js_ge (getHours d) (Num 12) then ''PM'' else ''AM'')"

text \<open>\<open>formatDate\<close>: ten calls of \<open>replace\<close>, each on the result of the one before.\<close>

definition formatDate :: "date \<Rightarrow> string \<Rightarrow> string" where
  "formatDate d format =
     (let s1 = replace format ''YYYY'' (toString (getFullYear d));
          s2 = replace s1 ''MMMM'' (replaceValue (array_get MONTH_NAMES (getMonth d)));
          s3 = replace s2 ''MMM'' (replaceValue (array_get MONTH_SHORT (getMonth d)));
          s4 = replace s3 ''MM'' (pad (js_add (getMonth d) (Num 1)));
          s5 = replace s4 ''DD'' (pad (getDate d));
          s6 = replace s5 ''HH'' (pad (getHours d));
          s7 = replace s6 ''hh'' (pad (hours12_of d));
          s8 = replace s7 ''mm'' (pad (getMinutes d));
          s9 = replace s8 ''ss'' (pad (getSeconds d))
      in replace s9 ''A'' (ampm_of d))"

text \<open>
  The presets a format is picked from in the settings panel, each with its \<open>value\<close>
  (\<open>preset_value\<close> here), its \<open>label\<close> and its \<open>example\<close>: what the format is
  documented to give at 18 January 2026, 14:30:45.
\<close>

record FormatPreset =
  preset_value :: string
  label :: string
  example :: string

definition DATE_FORMAT_PRESETS :: "FormatPreset list" where
  "DATE_FORMAT_PRESETS =
     [\<lparr>preset_value = ''YYYY-MM-DD'', label = ''ISO (2026-01-18)'', example = ''2026-01-18''\<rparr>,
      \<lparr>preset_value = ''MM/DD/YYYY'', label = ''US (01/18/2026)'', example = ''01/18/2026''\<rparr>,
      \<lparr>preset_value = ''DD/MM/YYYY'', label = ''EU (18/01/2026)'', example = ''18/01/2026''\<rparr>,
      \<lparr>preset_value = ''DD MMM YYYY'', label = ''Short (18 Jan 2026)'', example = ''18 Jan 2026''\<rparr>,
      \<lparr>preset_value = ''MMMM DD, YYYY'', label = ''Long (January 18, 2026)'',
         example = ''January 18, 2026''\<rparr>,
      \<lparr>preset_value = ''DD.MM.YYYY'', label = ''Dotted (18.01.2026)'', example = ''18.01.2026''\<rparr>]"

definition TIME_FORMAT_PRESETS :: "FormatPreset list" where
  "TIME_FORMAT_PRESETS =
     [\<lparr>preset_value = ''HH:mm:ss'', label = ''24h with seconds (14:30:45)'', example = ''14:30:45''\<rparr>,
      \<lparr>preset_value = ''HH:mm'', label = ''24h (14:30)'', example = ''14:30''\<rparr>,
      \<lparr>preset_value = ''hh:mm:ss A'', label = ''12h with seconds (02:30:45 PM)'',
         example = ''02:30:45 PM''\<rparr>,
      \<lparr>preset_value = ''hh:mm A'', label = ''12h (02:30 PM)'', example = ''02:30 PM''\<rparr>,
      \<lparr>preset_value = [], label = ''No time'', example = []\<rparr>]"

text \<open>\<open>combineFormats\<close>: an empty time format gives the date format alone.\<close>

definition combineFormats :: "string \<Rightarrow> string \<Rightarrow> string" where
  "combineFormats dateFormat timeFormat =
     (if timeFormat = [] then dateFormat else dateFormat @ '' '' @ timeFormat)"

text \<open>The token vocabulary, in the order in which \<open>formatDate\<close> substitutes it.\<close>

definition TOKENS :: "string list" where
  "TOKENS = [''YYYY'', ''MMMM'', ''MMM'', ''MM'', ''DD'', ''HH'', ''hh'', ''mm'', ''ss'', ''A'']"

text \<open>
  What one substitution is meant to do, stated without reference to \<open>replace\<close>:
  \<open>replaces_first t r s s'\<close> holds when \<open>s'\<close> is \<open>s\<close> with the leftmost occurrence of
  \<open>t\<close> replaced by \<open>r\<close> and everything else unchanged, or \<open>s' = s\<close> when \<open>t\<close> does not
  occur in \<open>s\<close>.
\<close>

definition replaces_first :: "string \<Rightarrow> string \<Rightarrow> string \<Rightarrow> string \<Rightarrow> bool" where
  "replaces_first t r s s' \<longleftrightarrow>
     (\<exists>pre suf. s = pre @ t @ suf
        \<and> (\<forall>pre' suf'. s = pre' @ t @ suf' \<longrightarrow> length pre \<le> length pre')
        \<and> s' = pre @ r @ suf)
     \<or> ((\<forall>pre suf. s \<noteq> pre @ t @ suf) \<and> s' = s)"

text \<open>The letters the tokens are made of.\<close>

definition token_letters :: "char set" where
  "token_letters = set ''YMDHhmsA''"

subsection \<open>Format strings made of pieces\<close>

text \<open>
  A format string as the specification reads it: a sequence of pieces, each of them a
  token or literal text. \<open>flatten\<close> gives the string that is handed to \<open>formatDate\<close>.
\<close>

datatype piece = Lit string | Tok string

fun text_of :: "piece \<Rightarrow> string" where
  "text_of (Lit s) = s"
| "text_of (Tok t) = t"

definition flatten :: "piece list \<Rightarrow> string" where
  "flatten ps = concat (map text_of ps)"







section \<open>Metadata resolver (extractImageMetadata in App.tsx)\<close>

text \<open>The values a field of the decoded EXIF object can hold.\<close>

datatype js_value =
    JUndefined
  | JNull
  | JBool bool
  | JNumber number
  | JString string
  | JDate date

text \<open>Truthiness, as the \<open>if (...)\<close> tests of the resolver see it: \<open>undefined\<close>, \<open>null\<close>,
  \<open>false\<close>, \<open>0\<close>, \<open>NaN\<close> and the empty string are falsy, every object is truthy.\<close>

fun truthy :: "js_value \<Rightarrow> bool" where
  "truthy JUndefined = False"
| "truthy JNull = False"
| "truthy (JBool b) = b"
| "truthy (JNumber n) = truthy_number n"
| "truthy (JString s) = (s \<noteq> [])"
| "truthy (JDate d) = True"

datatype exif_field = DateTimeOriginal | CreateDate | ModifyDate

text \<open>The decoded object: a field it does not have is \<open>None\<close>.\<close>

type_synonym exif_data = "exif_field \<Rightarrow> js_value option"

text \<open>
  How \<open>await exifr.parse(file, {pick: [...]})\<close> ends: it throws, or it returns the decoded
  object, or it returns \<open>undefined\<close> (\<open>Resolves None\<close>). The decoder is a collaborator;
  its outcome on the file is the input of the model.
\<close>

datatype parse_outcome = Throws | Resolves "exif_data option"

text \<open>\<open>exifData?.field\<close>\<close>

fun optional_get :: "exif_data option \<Rightarrow> exif_field \<Rightarrow> js_value" where
  "optional_get None k = JUndefined"
| "optional_get (Some obj) k = (case obj k of None \<Rightarrow> JUndefined | Some v \<Rightarrow> v)"

text \<open>
  The date of the result is kept as the constructor call that made it:
  \<open>New_Date_of v\<close> for \<open>new Date(v)\<close>, \<open>New_Date_now\<close> for \<open>new Date()\<close>, the wall clock.
\<close>

datatype date_expr = New_Date_of js_value | New_Date_now

record metadata =
  date :: date_expr
  usedFallback :: bool

text \<open>How a promise settles.\<close>

datatype 'a settled = Fulfilled 'a | Rejected

text \<open>
  The body of the \<open>try\<close> block: \<open>Inl ()\<close> when the decoder throws, \<open>Inr (Some r)\<close> when one
  of the three \<open>return\<close> statements is reached, \<open>Inr None\<close> when control falls out of the block.
\<close>

fun try_body :: "parse_outcome \<Rightarrow> unit + metadata option" where
  "try_body Throws = Inl ()"
| "try_body (Resolves exifData) =
     Inr (if truthy (optional_get exifData DateTimeOriginal)
          then Some \<lparr>date = New_Date_of (optional_get exifData DateTimeOriginal), usedFallback = False\<rparr>
          else if truthy (optional_get exifData CreateDate)
          then Some \<lparr>date = New_Date_of (optional_get exifData CreateDate), usedFallback = False\<rparr>
          else if truthy (optional_get exifData ModifyDate)
          then Some \<lparr>date = New_Date_of (optional_get exifData ModifyDate), usedFallback = False\<rparr>
          else None)"

text \<open>The \<open>catch\<close> only logs a warning; after it, and after a \<open>try\<close> block that returned
  nothing, the function returns the wall clock with \<open>usedFallback: true\<close>.\<close>

definition extractImageMetadata :: "parse_outcome \<Rightarrow> metadata settled" where
  "extractImageMetadata outcome =
     (case try_body outcome of
        Inr (Some r) \<Rightarrow> Fulfilled r
      | Inr None \<Rightarrow> Fulfilled \<lparr>date = New_Date_now, usedFallback = True\<rparr>
      | Inl e \<Rightarrow> Fulfilled \<lparr>date = New_Date_now, usedFallback = True\<rparr>)"

text \<open>
  The resolver as the specification words it, for comparison: the first field that is
  \<^emph>\<open>present\<close> in the decoded object, in priority order, whatever its value.
\<close>

fun present :: "exif_data option \<Rightarrow> exif_field \<Rightarrow> bool" where
  "present None k = False"
| "present (Some obj) k = (obj k \<noteq> None)"

definition resolve_first_present :: "parse_outcome \<Rightarrow> metadata" where
  "resolve_first_present outcome =
     (case outcome of
        Throws \<Rightarrow> \<lparr>date = New_Date_now, usedFallback = True\<rparr>
      | Resolves e \<Rightarrow>
          (case find (present e) [DateTimeOriginal, CreateDate, ModifyDate] of
             Some k \<Rightarrow> \<lparr>date = New_Date_of (optional_get e k), usedFallback = False\<rparr>
           | None \<Rightarrow> \<lparr>date = New_Date_now, usedFallback = True\<rparr>))"

text \<open>
  The timestamp a date expression stands for, where it does not depend on the parser of the
  JavaScript engine or on the clock: \<open>new Date(d)\<close> on a \<open>Date\<close> object \<open>d\<close> is a copy of \<open>d\<close>.
\<close>

fun instant_of :: "date_expr \<Rightarrow> date option" where
  "instant_of (New_Date_of (JDate d)) = Some d"
| "instant_of _ = None"

section \<open>Overlay compositor (processImage in App.tsx, types/config.ts)\<close>

datatype position = bottomRight | bottomLeft | topRight | topLeft

text \<open>\<open>ImageConfig\<close>; a JavaScript number of the configuration is a real number here.\<close>

record ImageConfig =
  fontSize :: real
  fontFamily :: string
  fontColor :: string
  strokeColor :: string
  strokeWidth :: real
  position :: position
  offsetX :: real
  offsetY :: real
  dropShadowEnabled :: bool
  dropShadowBlur :: real
  dropShadowOffsetX :: real
  dropShadowOffsetY :: real
  dropShadowColor :: string
  dateFormatPreset :: string
  timeFormatPreset :: string
  dateFormat :: string
  useCustomFormat :: bool

definition DEFAULT_CONFIG :: ImageConfig where
  "DEFAULT_CONFIG =
     \<lparr>fontSize = 120, fontFamily = ''Inter'', fontColor = ''#FBBF24'',
      strokeColor = ''#000000'', strokeWidth = 5,
      position = bottomRight, offsetX = 20, offsetY = 20,
      dropShadowEnabled = False, dropShadowBlur = 4,
      dropShadowOffsetX = 2, dropShadowOffsetY = 2,
      dropShadowColor = ''rgba(0, 0, 0, 0.5)'',
      dateFormatPreset = ''YYYY-MM-DD'', timeFormatPreset = ''HH:mm:ss'',
      dateFormat = ''YYYY-MM-DD HH:mm:ss'', useCustomFormat = False\<rparr>"

text \<open>The decoded image: its pixel dimensions.\<close>

record image =
  width :: nat
  height :: nat

text \<open>\<open>Math.max(Math.min(config.fontSize, img.width / 10), 24)\<close>\<close>

definition relativeFontSize :: "ImageConfig \<Rightarrow> image \<Rightarrow> real" where
  "relativeFontSize config img = max (min (fontSize config) (real (width img) / 10)) 24"

text \<open>The \<open>switch (config.position)\<close> that computes \<open>x\<close> and \<open>y\<close>; \<open>textWidth\<close> is
  \<open>textMetrics.width\<close>.\<close>

definition anchor :: "ImageConfig \<Rightarrow> image \<Rightarrow> real \<Rightarrow> real \<times> real" where
  "anchor config img textWidth =
     (case position config of
        bottomRight \<Rightarrow>
          (real (width img) - textWidth - offsetX config, real (height img) - offsetY config)
      | bottomLeft \<Rightarrow>
          (offsetX config, real (height img) - offsetY config)
      | topRight \<Rightarrow>
          (real (width img) - textWidth - offsetX config, relativeFontSize config img + offsetY config)
      | topLeft \<Rightarrow>
          (offsetX config, relativeFontSize config img + offsetY config))"

text \<open>
  The state of the 2D drawing context that \<open>processImage\<close> writes to. \<open>font\<close> keeps the size
  and the family of \<open>bold <size>px "<family>", system-ui, sans-serif\<close>.
\<close>

record drawing_context =
  font :: "real \<times> string"
  textBaseline :: string
  shadowBlur :: real
  shadowOffsetX :: real
  shadowOffsetY :: real
  shadowColor :: string
  strokeStyle :: string
  lineWidth :: real
  lineJoin :: string
  fillStyle :: string

text \<open>The context of a new canvas, with the defaults of the canvas standard.\<close>

definition new_context :: drawing_context where
  "new_context =
     \<lparr>font = (10, ''sans-serif''), textBaseline = ''alphabetic'',
      shadowBlur = 0, shadowOffsetX = 0, shadowOffsetY = 0,
      shadowColor = ''rgba(0, 0, 0, 0)'',
      strokeStyle = ''#000000'', lineWidth = 1, lineJoin = ''miter'',
      fillStyle = ''#000000''\<rparr>"

text \<open>A drawing call, recorded with the state of the context at the moment of the call.\<close>

datatype draw_call =
    DrawImage real real
  | StrokeText string real real
  | FillText string real real

type_synonym drawing = "(draw_call \<times> drawing_context) list"

text \<open>
  The drawing part of \<open>img.onload\<close>, from \<open>ctx.drawImage\<close> to \<open>ctx.fillText\<close>, statement by
  statement. \<open>textWidth\<close> is the width that \<open>ctx.measureText(timestamp)\<close> reports in the
  font set; the canvas measures, the code only reads the number.
\<close>

definition draw_overlay :: "ImageConfig \<Rightarrow> image \<Rightarrow> string \<Rightarrow> real \<Rightarrow> drawing" where
  "draw_overlay config img timestamp textWidth =
     (let ctx0 = new_context;
          log0 = [(DrawImage 0 0, ctx0)];
          ctx1 = ctx0\<lparr>font := (relativeFontSize config img, fontFamily config)\<rparr>;
          ctx2 = ctx1\<lparr>textBaseline := ''bottom''\<rparr>;
          (x, y) = anchor config img textWidth;
          ctx3 = (if dropShadowEnabled config
                  then ctx2\<lparr>shadowBlur := dropShadowBlur config,
                            shadowOffsetX := dropShadowOffsetX config,
                            shadowOffsetY := dropShadowOffsetY config,
                            shadowColor := dropShadowColor config\<rparr>
                  else ctx2);
          (ctx4, log1) =
            (if strokeWidth config > 0
             then (let c = ctx3\<lparr>strokeStyle := strokeColor config,
                                 lineWidth := strokeWidth config,
                                 lineJoin := ''round''\<rparr>
                   in (c, log0 @ [(StrokeText timestamp x y, c)]))
             else (ctx3, log0));
          ctx5 = ctx4\<lparr>shadowBlur := 0, shadowOffsetX := 0, shadowOffsetY := 0\<rparr>;
          ctx6 = ctx5\<lparr>fillStyle := fontColor config\<rparr>
      in log1 @ [(FillText timestamp x y, ctx6)])"

text \<open>
  The canvas draws a shadow for a call only when the shadow colour is not fully transparent
  and the blur or one of the offsets is not zero; \<open>shadow_off\<close> is the second half of that
  condition failing.
\<close>

definition shadow_off :: "drawing_context \<Rightarrow> bool" where
  "shadow_off c \<longleftrightarrow> shadowBlur c = 0 \<and> shadowOffsetX c = 0 \<and> shadowOffsetY c = 0"

text \<open>The neutral shadow state as the specification words it: zero blur, zero offsets and a
  transparent colour.\<close>

definition shadow_neutral :: "drawing_context \<Rightarrow> bool" where
  "shadow_neutral c \<longleftrightarrow>
     shadow_off c \<and> (shadowColor c = ''transparent'' \<or> shadowColor c = ''rgba(0, 0, 0, 0)'')"

section \<open>Batch orchestrator (handleFiles and handleClearAll in App.tsx)\<close>

text \<open>The status of a record: \<open>"processing"\<close>, \<open>"done"\<close> or \<open>"error"\<close>.\<close>

datatype status = Processing | Done | Error

text \<open>\<open>ProcessedImage\<close>; the field \<open>id\<close> is \<open>image_id\<close> here and \<open>usedFallback\<close> is
  \<open>image_usedFallback\<close>, the plain names being taken.\<close>

record ProcessedImage =
  image_id :: string
  originalName :: string
  processedUrl :: string
  timestamp :: string
  image_usedFallback :: bool
  status :: status

text \<open>A submitted file: its name, its content type and its bytes. Two files can agree on
  the name and the type and differ in the bytes.\<close>

record js_file =
  name :: string
  type :: string
  bytes :: "nat list"

text \<open>What \<open>processImage\<close> resolves to.\<close>

record result =
  url :: string
  result_timestamp :: string
  result_usedFallback :: bool

text \<open>The two state updates of the loop body: the one after \<open>await processImage\<close> returned,
  the one in the \<open>catch\<close>. They are the functions handed to \<open>setImages\<close>, applied to the
  state \<open>prev\<close> of that moment.\<close>

definition mark_done :: "string \<Rightarrow> result \<Rightarrow> ProcessedImage list \<Rightarrow> ProcessedImage list" where
  "mark_done imageId r prev =
     map (\<lambda>img. if image_id img = imageId
                 then img\<lparr>processedUrl := url r,
                          timestamp := result_timestamp r,
                          image_usedFallback := result_usedFallback r,
                          status := Done\<rparr>
                 else img) prev"

definition mark_error :: "string \<Rightarrow> ProcessedImage list \<Rightarrow> ProcessedImage list" where
  "mark_error imageId prev =
     map (\<lambda>img. if image_id img = imageId then img\<lparr>status := Error\<rparr> else img) prev"

text \<open>The record created for a file when it is submitted.\<close>

definition new_image :: "string \<Rightarrow> js_file \<Rightarrow> ProcessedImage" where
  "new_image i f =
     \<lparr>image_id = i, originalName = name f, processedUrl = [], timestamp = [],
      image_usedFallback = False, status = Processing\<rparr>"

text \<open>\<open>const validFiles = Array.from(files).filter((file) => file.type.startsWith("image/"))\<close>\<close>

definition validFiles :: "js_file list \<Rightarrow> js_file list" where
  "validFiles files = filter (\<lambda>f. prefix ''image/'' (type f)) files"

text \<open>What \<open>handleClearAll\<close> does, call by call, on the state \<open>images\<close> it sees.\<close>

datatype effect =
    RevokeObjectURL string
  | SetImages "ProcessedImage list"
  | SetLightboxOpen bool

definition handleClearAll :: "ProcessedImage list \<Rightarrow> effect list" where
  "handleClearAll images =
     concat (map (\<lambda>img. if processedUrl img \<noteq> [] then [RevokeObjectURL (processedUrl img)] else [])
               images)
     @ [SetImages [], SetLightboxOpen False]"

text \<open>
  The part of the application state the orchestrator works on: \<open>images_state\<close> is the
  React state \<open>images\<close>, and \<open>revoked_urls\<close> lists the object URLs that
  \<open>URL.revokeObjectURL\<close> has been called on, in the order of the calls.
\<close>

record app_state =
  images_state :: "ProcessedImage list"
  revoked_urls :: "string list"

fun run_effect :: "effect \<Rightarrow> app_state \<Rightarrow> app_state" where
  "run_effect (RevokeObjectURL u) s = s\<lparr>revoked_urls := revoked_urls s @ [u]\<rparr>"
| "run_effect (SetImages xs) s = s\<lparr>images_state := xs\<rparr>"
| "run_effect (SetLightboxOpen b) s = s"

text \<open>
  \<open>handleFiles\<close> is an \<open>async\<close> function: while it waits for \<open>processImage\<close>, other
  handlers run, and they are the only other code that calls \<open>setImages\<close>. The button
  \<open>Clear All\<close> is shown as soon as \<open>images\<close> is not empty, so \<open>handleClearAll\<close> can run
  (\<open>Clear_All\<close>; it sees the state of that moment). The drop zone stays active, so another
  call of \<open>handleFiles\<close> can be under way, and each of its three calls of \<open>setImages\<close> can
  fall into the wait: the one that appends its new records (\<open>Other_Append\<close>), the one
  that marks a record of its own as done (\<open>Other_Done\<close>), the one that marks it as failed
  (\<open>Other_Error\<close>).
\<close>

datatype handler_call =
    Clear_All
  | Other_Append "ProcessedImage list"
  | Other_Done string result
  | Other_Error string

fun other_handler :: "handler_call \<Rightarrow> app_state \<Rightarrow> app_state" where
  "other_handler Clear_All s = fold run_effect (handleClearAll (images_state s)) s"
| "other_handler (Other_Append newImages) s = s\<lparr>images_state := images_state s @ newImages\<rparr>"
| "other_handler (Other_Done imageId r) s = s\<lparr>images_state := mark_done imageId r (images_state s)\<rparr>"
| "other_handler (Other_Error imageId) s = s\<lparr>images_state := mark_error imageId (images_state s)\<rparr>"

text \<open>
  One iteration of the \<open>for\<close> loop of \<open>handleFiles\<close>, the \<open>i\<close>-th, on the file and the id
  of its record (the pair \<open>p\<close>). \<open>others i\<close> lists what the other handlers do while
  \<open>processImage\<close> is awaited. \<open>processImage i f\<close> tells how the promise of the \<open>i\<close>-th call
  of the pipeline settles on the file \<open>f\<close>, fulfilled with a result or rejected: it
  depends on the bytes of the file, and the object URL of the result is a new one at each
  call. The update of the iteration is applied to the state the other handlers have left.
  A promise that never settles is not part of the model: the loop would wait for it and
  go no further.
\<close>

definition loop_body ::
  "(nat \<Rightarrow> handler_call list) \<Rightarrow> (nat \<Rightarrow> js_file \<Rightarrow> result settled) \<Rightarrow> nat \<Rightarrow> js_file \<times> string
     \<Rightarrow> app_state \<Rightarrow> app_state" where
  "loop_body others processImage i p s =
     (let s' = fold other_handler (others i) s
      in s'\<lparr>images_state :=
              (case processImage i (fst p) of
                 Fulfilled r \<Rightarrow> mark_done (snd p) r (images_state s')
               | Rejected \<Rightarrow> mark_error (snd p) (images_state s'))\<rparr>)"

text \<open>The loop, from the \<open>i\<close>-th iteration on, over the files that are left and the ids of
  their records. The result is the list of the states after each iteration, in order.\<close>

fun process_loop ::
  "(nat \<Rightarrow> handler_call list) \<Rightarrow> (nat \<Rightarrow> js_file \<Rightarrow> result settled) \<Rightarrow> nat \<Rightarrow> (js_file \<times> string) list
     \<Rightarrow> app_state \<Rightarrow> app_state list" where
  "process_loop others processImage i [] s = []"
| "process_loop others processImage i (p # rest) s =
     (let s' = loop_body others processImage i p s
      in s' # process_loop others processImage (Suc i) rest s')"

text \<open>
  \<open>handleFiles\<close>. \<open>gen_id k\<close> is the id that \<open>Date.now()\<close> and \<open>Math.random()\<close> yield for the
  \<open>k\<close>-th valid file; nothing in the code makes two of them differ. \<open>s\<close> is the state
  when the files are submitted. The result is the list of the states that follow: after
  the new records are appended, which happens before the first wait, then after each
  iteration of the loop. With no valid file the state is not touched.
\<close>

definition handleFiles ::
  "(nat \<Rightarrow> handler_call list) \<Rightarrow> (nat \<Rightarrow> js_file \<Rightarrow> result settled) \<Rightarrow> (nat \<Rightarrow> string) \<Rightarrow> js_file list
     \<Rightarrow> app_state \<Rightarrow> app_state list" where
  "handleFiles others processImage gen_id files s =
     (if length (validFiles files) = 0 then []
      else
        (let newImages = map (\<lambda>(k, f). new_image (gen_id k) f) (enumerate 0 (validFiles files));
             s0 = s\<lparr>images_state := images_state s @ newImages\<rparr>
         in s0 # process_loop others processImage 0 (zip (validFiles files) (map image_id newImages)) s0))"

subsection \<open>Notions for stating the orchestrator's properties\<close>

text \<open>A record once its own call of the pipeline has settled: \<open>Done\<close> with the output when
  the promise was fulfilled, \<open>Error\<close> when it was rejected.\<close>

fun settle :: "result settled \<Rightarrow> ProcessedImage \<Rightarrow> ProcessedImage" where
  "settle (Fulfilled r) img =
     img\<lparr>processedUrl := url r, timestamp := result_timestamp r,
         image_usedFallback := result_usedFallback r, status := Done\<rparr>"
| "settle Rejected img = img\<lparr>status := Error\<rparr>"

text \<open>The ids of the records of a batch, in the order of submission.\<close>

definition batch_ids :: "(nat \<Rightarrow> string) \<Rightarrow> js_file list \<Rightarrow> string list" where
  "batch_ids gen_id files = map gen_id [0..<length (validFiles files)]"

text \<open>The records of a state that carry one of the given ids, in the order in which the
  state holds them, and the records that carry none of them.\<close>

definition records_of :: "string list \<Rightarrow> app_state \<Rightarrow> ProcessedImage list" where
  "records_of ids s = filter (\<lambda>img. image_id img \<in> set ids) (images_state s)"

definition records_outside :: "string list \<Rightarrow> app_state \<Rightarrow> ProcessedImage list" where
  "records_outside ids s = filter (\<lambda>img. image_id img \<notin> set ids) (images_state s)"

text \<open>
  The records of a batch expected after \<open>k\<close> iterations: one for each valid file, in the
  order of submission, the first \<open>k\<close> of them settled, each by the outcome of its own call
  of the pipeline, the others as they were created.
\<close>

definition batch_state ::
  "(nat \<Rightarrow> js_file \<Rightarrow> result settled) \<Rightarrow> (nat \<Rightarrow> string) \<Rightarrow> js_file list \<Rightarrow> nat \<Rightarrow> ProcessedImage list" where
  "batch_state processImage gen_id fs k =
     map (\<lambda>(j, f). if j < k then settle (processImage j f) (new_image (gen_id j) f)
                    else new_image (gen_id j) f) (enumerate 0 fs)"

text \<open>
  A call of another handler leaves the records with the given ids alone when it is not
  \<open>Clear All\<close> and when the records it appends or marks carry other ids. A batch is
  undisturbed when every call that falls into one of its waits does so.
\<close>

fun leaves_alone :: "string list \<Rightarrow> handler_call \<Rightarrow> bool" where
  "leaves_alone ids Clear_All = False"
| "leaves_alone ids (Other_Append newImages) = list_all (\<lambda>img. image_id img \<notin> set ids) newImages"
| "leaves_alone ids (Other_Done imageId r) = (imageId \<notin> set ids)"
| "leaves_alone ids (Other_Error imageId) = (imageId \<notin> set ids)"

definition undisturbed :: "(nat \<Rightarrow> handler_call list) \<Rightarrow> string list \<Rightarrow> bool" where
  "undisturbed others ids = list_all (\<lambda>k. list_all (leaves_alone ids) (others k)) [0..<length ids]"

text \<open>The state of the application when it starts: \<open>useState<ProcessedImage[]>([])\<close>, and
  no URL revoked yet.\<close>

definition initial_state :: app_state where
  "initial_state = \<lparr>images_state = [], revoked_urls = []\<rparr>"

text \<open>A batch to run the orchestrator on: five images and a text file. The fourth image
  has the name and the type of the third one and cannot be decoded.\<close>

definition sample_files :: "js_file list" where
  "sample_files =
     [\<lparr>name = ''a.jpg'', type = ''image/jpeg'', bytes = [255, 216, 255, 224]\<rparr>,
      \<lparr>name = ''b.png'', type = ''image/png'', bytes = [137, 80, 78, 71]\<rparr>,
      \<lparr>name = ''notes.txt'', type = ''text/plain'', bytes = [104, 105]\<rparr>,
      \<lparr>name = ''c.jpg'', type = ''image/jpeg'', bytes = [255, 216, 255, 225]\<rparr>,
      \<lparr>name = ''c.jpg'', type = ''image/jpeg'', bytes = [0, 0, 0, 0]\<rparr>,
      \<lparr>name = ''e.webp'', type = ''image/webp'', bytes = [82, 73, 70, 70]\<rparr>]"

text \<open>A pipeline for it: the file of four zero bytes is rejected, every other call is
  fulfilled with a URL of its own.\<close>

definition sample_pipeline :: "nat \<Rightarrow> js_file \<Rightarrow> result settled" where
  "sample_pipeline i f =
     (if bytes f = [0, 0, 0, 0] then Rejected
      else Fulfilled \<lparr>url = ''blob:'' @ nat_toString i, result_timestamp = ''2024-03-05 09:07:03'',
                      result_usedFallback = False\<rparr>)"

text \<open>
  What happens during the waits of the sample batch, in three variants: nothing; another
  batch appends a record during the second wait and marks it as failed during the
  fourth; \<open>Clear All\<close> is clicked during the third wait. And an id generator that yields
  the same id every time.
\<close>

definition no_other_call :: "nat \<Rightarrow> handler_call list" where
  "no_other_call i = []"

definition other_batch :: "nat \<Rightarrow> handler_call list" where
  "other_batch i =
     (if i = 1 then [Other_Append [new_image ''other'' \<lparr>name = ''z.gif'', type = ''image/gif'', bytes = [71, 73, 70]\<rparr>]]
      else if i = 3 then [Other_Error ''other'']
      else [])"

definition clear_during_third :: "nat \<Rightarrow> handler_call list" where
  "clear_during_third i = (if i = 2 then [Clear_All] else [])"

definition same_id :: "nat \<Rightarrow> string" where
  "same_id i = ''0''"

section \<open>Properties of the format engine\<close>

subsection \<open>The leftmost occurrence\<close>

lemma indexOf_None: "indexOf s t = None \<Longrightarrow> s \<noteq> pre @ t @ suf"
proof (induction s arbitrary: pre)
  case Nil
  then show ?case by (auto split: if_splits)
next
  case (Cons c cs)
  from Cons.prems have np: "\<not> prefix t (c # cs)" and rec: "indexOf cs t = None"
    by (auto split: if_splits)
  show ?case
  proof (cases pre)
    case Nil
    with np show ?thesis by (auto simp: prefix_def)
  next
    case (Cons p ps)
    with Cons.IH [OF rec, of ps] show ?thesis by auto
  qed
qed

lemma indexOf_Some:
  "indexOf s t = Some i \<Longrightarrow>
     s = take i s @ t @ drop (i + length t) s \<and> i \<le> length s
     \<and> (\<forall>pre' suf'. s = pre' @ t @ suf' \<longrightarrow> i \<le> length pre')"
proof (induction s arbitrary: i)
  case Nil
  then show ?case by (auto split: if_splits)
next
  case (Cons c cs)
  show ?case
  proof (cases "prefix t (c # cs)")
    case True
    with Cons.prems have "i = 0" by simp
    with True show ?thesis by (auto simp: prefix_def)
  next
    case False
    with Cons.prems obtain j where j: "indexOf cs t = Some j" and i: "i = Suc j"
      by auto
    from Cons.IH [OF j] have eq: "cs = take j cs @ t @ drop (j + length t) cs"
      and le: "j \<le> length cs"
      and least: "\<forall>pre' suf'. cs = pre' @ t @ suf' \<longrightarrow> j \<le> length pre'"
      by auto
    have "\<forall>pre' suf'. c # cs = pre' @ t @ suf' \<longrightarrow> i \<le> length pre'"
    proof (intro allI impI)
      fix pre' suf' assume a: "c # cs = pre' @ t @ suf'"
      show "i \<le> length pre'"
      proof (cases pre')
        case Nil
        with a False show ?thesis by (auto simp: prefix_def)
      next
        case (Cons p ps)
        with a have "cs = ps @ t @ suf'" by simp
        with least have "j \<le> length ps" by blast
        with Cons i show ?thesis by simp
      qed
    qed
    moreover from eq have "c # cs = take i (c # cs) @ t @ drop (i + length t) (c # cs)"
      using i by simp
    ultimately show ?thesis using le i by simp
  qed
qed

lemma replace_replaces_first: "replaces_first t r s (replace s t r)"
proof (cases "indexOf s t")
  case None
  then show ?thesis
    using indexOf_None [of s t] by (simp add: replaces_first_def replace_def)
next
  case (Some i)
  from indexOf_Some [OF Some] show ?thesis
    unfolding replaces_first_def replace_def Some
    apply simp
    apply (rule disjI1)
    apply (rule exI [of _ "take i s"])
    apply (rule exI [of _ "drop (i + length t) s"])
    apply auto
    done
qed

lemma indexOf_None_iff: "indexOf s t = None \<longleftrightarrow> \<not> sublist t s"
proof
  assume "indexOf s t = None"
  then show "\<not> sublist t s" using indexOf_None [of s t] by (auto simp: sublist_def)
next
  assume n: "\<not> sublist t s"
  show "indexOf s t = None"
  proof (cases "indexOf s t")
    case None then show ?thesis .
  next
    case (Some i)
    from indexOf_Some [OF Some] have "sublist t s" unfolding sublist_def by blast
    with n show ?thesis by simp
  qed
qed

lemma replace_no_occurrence: "\<not> sublist t s \<Longrightarrow> replace s t r = s"
  by (simp add: replace_def indexOf_None_iff [symmetric])

lemma replace_Nil: "replace [] t r = (if t = [] then r else [])"
  by (simp add: replace_def)

lemma replace_Cons:
  "replace (c # s) t r = (if prefix t (c # s) then r @ drop (length t) (c # s) else c # replace s t r)"
  by (simp add: replace_def split: option.splits)

lemma replace_append_skip:
  "t \<noteq> [] \<Longrightarrow> hd t \<notin> set p \<Longrightarrow> replace (p @ s) t r = p @ replace s t r"
proof (induction p)
  case Nil
  then show ?case by simp
next
  case (Cons c p)
  from Cons.prems have "\<not> prefix t (c # p @ s)"
    by (cases t) auto
  with Cons show ?case by (simp add: replace_Cons)
qed

lemma formatDate_no_token:
  assumes "\<forall>t \<in> set TOKENS. \<not> sublist t format"
  shows "formatDate d format = format"
proof -
  from assms have a: "\<not> sublist ''YYYY'' format" "\<not> sublist ''MMMM'' format" "\<not> sublist ''MMM'' format"
    "\<not> sublist ''MM'' format" "\<not> sublist ''DD'' format" "\<not> sublist ''HH'' format"
    "\<not> sublist ''hh'' format" "\<not> sublist ''mm'' format" "\<not> sublist ''ss'' format"
    "\<not> sublist ''A'' format"
    unfolding TOKENS_def by (simp_all only: list.set ball_simps insert_iff empty_iff simp_thms)
  show ?thesis
    unfolding formatDate_def Let_def
    by (simp only: replace_no_occurrence [OF a(1)] replace_no_occurrence [OF a(2)]
        replace_no_occurrence [OF a(3)] replace_no_occurrence [OF a(4)] replace_no_occurrence [OF a(5)]
        replace_no_occurrence [OF a(6)] replace_no_occurrence [OF a(7)] replace_no_occurrence [OF a(8)]
        replace_no_occurrence [OF a(9)] replace_no_occurrence [OF a(10)])
qed

subsection \<open>The characters of the inserted numbers\<close>

lemma digit_mem: "k < 10 \<Longrightarrow> ''0123456789'' ! k \<in> set ''0123456789''"
  by (rule nth_mem) simp

lemma nat_toString_digits: "set (nat_toString n) \<subseteq> set ''0123456789''"
proof -
  define D where "D = set ''0123456789''"
  define g where "g = (\<lambda>k. ''0123456789'' ! k)"
  have mem: "\<And>k. k < 10 \<Longrightarrow> g k \<in> D"
    unfolding D_def g_def by (rule digit_mem)
  have eq: "\<And>n. nat_toString n = (if n < 10 then [g n] else nat_toString (n div 10) @ [g (n mod 10)])"
    unfolding g_def by (rule nat_toString.simps)
  have "set (nat_toString n) \<subseteq> D"
  proof (induction n rule: nat_toString.induct)
    case (1 n)
    show ?case
    proof (cases "n < 10")
      case True
      with mem [of n] show ?thesis by (subst eq) simp
    next
      case False
      have "n mod 10 < 10" by simp
      from mem [OF this] "1.IH" [OF False] False show ?thesis
        by (subst eq) simp
    qed
  qed
  then show ?thesis unfolding D_def .
qed

lemma toString_chars: "set (toString n) \<subseteq> set ''0123456789-Na''"
proof (cases n)
  case NaN
  then show ?thesis by simp
next
  case (Num i)
  have sub: "set ''0123456789'' \<subseteq> set ''0123456789-Na''" by simp
  have m: "CHR ''-'' \<in> set ''0123456789-Na''" by simp
  define D where "D = set ''0123456789''"
  define E where "E = set ''0123456789-Na''"
  have "set (nat_toString (nat i)) \<subseteq> E" "set (nat_toString (nat (- i))) \<subseteq> E"
    unfolding E_def
    by (rule order_trans [OF nat_toString_digits sub], rule order_trans [OF nat_toString_digits sub])
  moreover have "CHR ''-'' \<in> E" unfolding E_def by (rule m)
  ultimately have "set (toString n) \<subseteq> E" unfolding Num by simp
  then show ?thesis unfolding E_def .
qed

lemma pad_chars: "set (pad n) \<subseteq> set ''0123456789-Na''"
proof -
  have z: "CHR ''0'' \<in> set ''0123456789-Na''" by simp
  define E where "E = set ''0123456789-Na''"
  have "set (toString n) \<subseteq> E" "CHR ''0'' \<in> E"
    unfolding E_def by (rule toString_chars, rule z)
  then have "set (pad n) \<subseteq> E"
    by (auto simp: pad_def padStart_def)
  then show ?thesis unfolding E_def .
qed

lemma notin_toString: "c \<notin> set ''0123456789-Na'' \<Longrightarrow> c \<notin> set (toString n)"
  using toString_chars [of n] by (rule contra_subsetD)

lemma notin_pad: "c \<notin> set ''0123456789-Na'' \<Longrightarrow> c \<notin> set (pad n)"
  using pad_chars [of n] by (rule contra_subsetD)

subsection \<open>Evaluating a substitution on a partly known string\<close>

lemma replace_skip_all: "t \<noteq> [] \<Longrightarrow> hd t \<notin> set p \<Longrightarrow> replace p t r = p"
  using replace_append_skip [of t p "[]" r] by (simp add: replace_Nil)

lemmas replace_eval = replace_Nil replace_Cons replace_append_skip replace_skip_all notin_toString notin_pad

lemma render_iso_format: "formatDate (Date y mo d h mi s) ''YYYY-MM-DD HH:mm:ss'' =
   toString (Num y) @ ''-'' @ pad (Num (int mo + 1)) @ ''-'' @ pad (Num (int d)) @ '' ''
     @ pad (Num (int h)) @ '':'' @ pad (Num (int mi)) @ '':'' @ pad (Num (int s))"
  by (simp add: formatDate_def replace_eval del: toString.simps array_get.simps)

lemma hours12_Date: "hours12_of (Date y mo d h mi s) = Num (if int h mod 12 = 0 then 12 else int h mod 12)"
  by (simp add: hours12_of_def js_or_def)

lemma render_12h_format: "formatDate (Date y mo d h mi s) ''hh:mm A'' =
   pad (hours12_of (Date y mo d h mi s)) @ '':'' @ pad (Num (int mi)) @ '' '' @ (if h < 12 then ''AM'' else ''PM'')"
  by (simp add: formatDate_def replace_eval ampm_of_def del: toString.simps array_get.simps)

lemma pad_12: "pad (Num 12) = ''12''"
  by (simp add: pad_def padStart_def nat_toString.simps)

lemma render_hh: "h = 0 \<or> h = 12 \<Longrightarrow> formatDate (Date y mo d h mi s) ''hh'' = ''12''"
  by (auto simp add: formatDate_def replace_eval hours12_Date pad_12 simp del: toString.simps array_get.simps)

lemma render_A: "formatDate (Date y mo d h mi s) ''A'' = (if h < 12 then ''AM'' else ''PM'')"
  by (simp add: formatDate_def replace_eval ampm_of_def del: toString.simps array_get.simps)

subsection \<open>No replacement holds a dollar sign\<close>

lemma replaceValue_array_get:
  "\<forall>x \<in> set xs. c \<notin> set x \<Longrightarrow> c \<notin> set ''undefined'' \<Longrightarrow> c \<notin> set (replaceValue (array_get xs n))"
proof (cases n)
  case NaN
  assume "c \<notin> set ''undefined''"
  with NaN show ?thesis by (simp only: array_get.simps replaceValue.simps not_False_eq_True)
next
  case (Num i)
  assume a: "\<forall>x \<in> set xs. c \<notin> set x" and u: "c \<notin> set ''undefined''"
  show ?thesis
  proof (cases "0 \<le> i \<and> nat i < length xs")
    case True
    then have "xs ! nat i \<in> set xs" by simp
    with a have "c \<notin> set (xs ! nat i)" by blast
    with True Num show ?thesis by simp
  next
    case False
    then have "array_get xs (Num i) = None"
      by (simp only: array_get.simps if_False)
    with Num have "replaceValue (array_get xs n) = ''undefined''"
      by (simp only: replaceValue.simps)
    with u show ?thesis by (simp only: not_False_eq_True)
  qed
qed

lemma replacements_no_dollar:
  "CHR ''$'' \<notin> set (toString (getFullYear d))
   \<and> CHR ''$'' \<notin> set (replaceValue (array_get MONTH_NAMES (getMonth d)))
   \<and> CHR ''$'' \<notin> set (replaceValue (array_get MONTH_SHORT (getMonth d)))
   \<and> CHR ''$'' \<notin> set (pad (js_add (getMonth d) (Num 1)))
   \<and> CHR ''$'' \<notin> set (pad (getDate d))
   \<and> CHR ''$'' \<notin> set (pad (getHours d))
   \<and> CHR ''$'' \<notin> set (pad (hours12_of d))
   \<and> CHR ''$'' \<notin> set (pad (getMinutes d))
   \<and> CHR ''$'' \<notin> set (pad (getSeconds d))
   \<and> CHR ''$'' \<notin> set (ampm_of d)"
proof -
  have names: "\<forall>x \<in> set MONTH_NAMES. CHR ''$'' \<notin> set x"
    by (simp add: MONTH_NAMES_def)
  have short: "\<forall>x \<in> set MONTH_SHORT. CHR ''$'' \<notin> set x"
    by (simp add: MONTH_SHORT_def)
  have u: "CHR ''$'' \<notin> set ''undefined''" by simp
  have d: "CHR ''$'' \<notin> set ''0123456789-Na''" by simp
  have a: "CHR ''$'' \<notin> set (ampm_of d)" by (simp add: ampm_of_def)
  show ?thesis
    by (intro conjI notin_toString notin_pad d a
        replaceValue_array_get [OF names u] replaceValue_array_get [OF short u])
qed

subsection \<open>Where a token can occur\<close>


lemma sublist_skip_left:
  "t \<noteq> [] \<Longrightarrow> hd t \<notin> set p \<Longrightarrow> sublist t (p @ s) \<Longrightarrow> sublist t s"
proof (induction p)
  case Nil
  then show ?case by simp
next
  case (Cons c p)
  from Cons.prems(1,2) have "\<not> prefix t (c # p @ s)" by (cases t) auto
  with Cons.prems(3) have "sublist t (p @ s)" by (simp add: sublist_Cons_right)
  with Cons show ?case by simp
qed

















subsection \<open>The first occurrence of a token, and the ones after it\<close>

lemma letters_notin:
  assumes "set pre \<inter> token_letters = {}" and "set rest \<inter> token_letters \<subseteq> {c}"
  shows "\<forall>x \<in> set ''YMDHhmsA''. x \<notin> set pre \<and> (x \<noteq> c \<longrightarrow> x \<notin> set rest)"
  using assms unfolding token_letters_def by auto

lemma first_occurrence_only:
  assumes "set pre \<inter> token_letters = {}"
  shows "set rest \<inter> token_letters \<subseteq> {CHR ''Y''} \<Longrightarrow>
           formatDate d (pre @ ''YYYY'' @ rest) = pre @ toString (getFullYear d) @ rest"
    and "set rest \<inter> token_letters \<subseteq> {CHR ''D''} \<Longrightarrow>
           formatDate d (pre @ ''DD'' @ rest) = pre @ pad (getDate d) @ rest"
    and "set rest \<inter> token_letters \<subseteq> {CHR ''H''} \<Longrightarrow>
           formatDate d (pre @ ''HH'' @ rest) = pre @ pad (getHours d) @ rest"
    and "set rest \<inter> token_letters \<subseteq> {CHR ''h''} \<Longrightarrow>
           formatDate d (pre @ ''hh'' @ rest) = pre @ pad (hours12_of d) @ rest"
    and "set rest \<inter> token_letters \<subseteq> {CHR ''m''} \<Longrightarrow>
           formatDate d (pre @ ''mm'' @ rest) = pre @ pad (getMinutes d) @ rest"
    and "set rest \<inter> token_letters \<subseteq> {CHR ''s''} \<Longrightarrow>
           formatDate d (pre @ ''ss'' @ rest) = pre @ pad (getSeconds d) @ rest"
    and "set rest \<inter> token_letters \<subseteq> {CHR ''A''} \<Longrightarrow>
           formatDate d (pre @ ''A'' @ rest) = pre @ ampm_of d @ rest"
proof -
  show "set rest \<inter> token_letters \<subseteq> {CHR ''Y''} \<Longrightarrow>
           formatDate d (pre @ ''YYYY'' @ rest) = pre @ toString (getFullYear d) @ rest"
    using letters_notin [OF assms, of rest "CHR ''Y''"]
    by (simp add: formatDate_def replace_eval del: toString.simps array_get.simps)
  show "set rest \<inter> token_letters \<subseteq> {CHR ''D''} \<Longrightarrow>
           formatDate d (pre @ ''DD'' @ rest) = pre @ pad (getDate d) @ rest"
    using letters_notin [OF assms, of rest "CHR ''D''"]
    by (simp add: formatDate_def replace_eval del: toString.simps array_get.simps)
  show "set rest \<inter> token_letters \<subseteq> {CHR ''H''} \<Longrightarrow>
           formatDate d (pre @ ''HH'' @ rest) = pre @ pad (getHours d) @ rest"
    using letters_notin [OF assms, of rest "CHR ''H''"]
    by (simp add: formatDate_def replace_eval del: toString.simps array_get.simps)
  show "set rest \<inter> token_letters \<subseteq> {CHR ''h''} \<Longrightarrow>
           formatDate d (pre @ ''hh'' @ rest) = pre @ pad (hours12_of d) @ rest"
    using letters_notin [OF assms, of rest "CHR ''h''"]
    by (simp add: formatDate_def replace_eval del: toString.simps array_get.simps)
  show "set rest \<inter> token_letters \<subseteq> {CHR ''m''} \<Longrightarrow>
           formatDate d (pre @ ''mm'' @ rest) = pre @ pad (getMinutes d) @ rest"
    using letters_notin [OF assms, of rest "CHR ''m''"]
    by (simp add: formatDate_def replace_eval del: toString.simps array_get.simps)
  show "set rest \<inter> token_letters \<subseteq> {CHR ''s''} \<Longrightarrow>
           formatDate d (pre @ ''ss'' @ rest) = pre @ pad (getSeconds d) @ rest"
    using letters_notin [OF assms, of rest "CHR ''s''"]
    by (simp add: formatDate_def replace_eval del: toString.simps array_get.simps)
  show "set rest \<inter> token_letters \<subseteq> {CHR ''A''} \<Longrightarrow>
           formatDate d (pre @ ''A'' @ rest) = pre @ ampm_of d @ rest"
    using letters_notin [OF assms, of rest "CHR ''A''"]
    by (simp add: formatDate_def replace_eval ampm_of_def del: toString.simps array_get.simps)
qed


lemma month_tokens_apart:
  "\<not> sublist ''YYYY'' ''MMMM''" "\<not> sublist ''YYYY'' ''MMM''" "\<not> sublist ''MMMM'' ''MMM''"
  "\<not> sublist ''MMM'' ''MM''" "\<not> sublist ''MM'' ''M''" "sublist ''MMM'' ''MMMM''"
  by code_simp+


lemma month_number_first_only:
  assumes pre: "set pre \<inter> token_letters = {}" and rest: "set rest \<inter> token_letters \<subseteq> {CHR ''M''}"
    and n: "\<not> sublist ''MMM'' (''MM'' @ rest)"
  shows "formatDate d (pre @ ''MM'' @ rest) = pre @ pad (js_add (getMonth d) (Num 1)) @ rest"
proof -
  note L = letters_notin [OF pre rest]
  from L have hM: "CHR ''M'' \<notin> set pre" by simp
  have s1: "replace (pre @ ''MM'' @ rest) ''YYYY'' r = pre @ ''MM'' @ rest" for r
    using L by (simp add: replace_eval)
  have n3: "\<not> sublist ''MMM'' (pre @ ''MM'' @ rest)"
    using sublist_skip_left [of "''MMM''" pre "''MM'' @ rest"] hM n by auto
  have n4: "\<not> sublist ''MMMM'' (pre @ ''MM'' @ rest)"
    using n3 month_tokens_apart(6) sublist_order.order.trans by blast
  have s2: "replace (pre @ ''MM'' @ rest) ''MMMM'' r = pre @ ''MM'' @ rest" for r
    by (rule replace_no_occurrence [OF n4])
  have s3: "replace (pre @ ''MM'' @ rest) ''MMM'' r = pre @ ''MM'' @ rest" for r
    by (rule replace_no_occurrence [OF n3])
  have s4: "replace (pre @ ''MM'' @ rest) ''MM'' r = pre @ r @ rest" for r
    using hM by (simp add: replace_eval)
  have s5: "replace (pre @ pad k @ rest) ''DD'' r = pre @ pad k @ rest"
    "replace (pre @ pad k @ rest) ''HH'' r = pre @ pad k @ rest"
    "replace (pre @ pad k @ rest) ''hh'' r = pre @ pad k @ rest"
    "replace (pre @ pad k @ rest) ''mm'' r = pre @ pad k @ rest"
    "replace (pre @ pad k @ rest) ''ss'' r = pre @ pad k @ rest"
    "replace (pre @ pad k @ rest) ''A'' r = pre @ pad k @ rest" for r k
    using L by (simp_all add: replace_eval)
  show ?thesis
    unfolding formatDate_def Let_def by (simp only: s1 s2 s3 s4 s5)
qed




subsection \<open>The calls of replace on a plain format\<close>

text \<open>
  On a plain format, each call of \<open>replace\<close> in \<open>formatDate\<close> replaces the first piece that
  is its token, if there is one: the pieces before it do not hold the first letter of the
  token, and the values inserted so far hold no token letter. The calls for \<open>MMMM\<close> and
  \<open>MMM\<close> find nothing.
\<close>

lemma flatten_simps [simp]:
  "flatten [] = []" "flatten (p # ps) = text_of p @ flatten ps" "flatten (ps @ qs) = flatten ps @ flatten qs"
  by (simp_all add: flatten_def)



























lemma render_april_short:
  "formatDate (Date 2026 3 18 9 30 45) ''DD MMM YYYY'' = ''18 AMpr 2026''"
  by code_simp

subsection \<open>Claims on the format engine\<close>




text \<open>
  Claim C2 says that text of the format string that matches no token reaches the output
  unchanged. The code breaks it: a later substitution also sees the text an earlier one has
  inserted. In March, \<open>MMMM\<close> followed by the single letter \<open>h\<close> gives \<open>Marchh\<close> after the
  month is inserted, and the substitution of \<open>hh\<close> then takes the last letter of the month
  together with the literal \<open>h\<close>.
\<close>

theorem formatDate_literal_text_consumed:
  "formatDate (Date 2024 2 5 9 7 3) ''MMMMh'' = ''Marc09''"
  by code_simp

text \<open>
  What holds of the examples the specification gives. At 5 March 2024, 09:07:03 the format
  \<open>YYYY-MM-DD HH:mm:ss\<close> gives \<open>2024-03-05 09:07:03\<close>, and at 1 January 2024, 00:30:00
  the format \<open>hh:mm A\<close> gives \<open>12:30 AM\<close>. At every date, the token \<open>hh\<close> gives \<open>12\<close> at
  midnight and at noon, and the token \<open>A\<close> gives \<open>AM\<close> before noon and \<open>PM\<close> from noon on.
\<close>

lemma render_examples:
  "formatDate (Date 2024 2 5 9 7 3) ''YYYY-MM-DD HH:mm:ss'' = ''2024-03-05 09:07:03''
   \<and> formatDate (Date 2024 0 1 0 30 0) ''hh:mm A'' = ''12:30 AM''
   \<and> (\<forall>y mo d h mi s. h = 0 \<or> h = 12 \<longrightarrow> formatDate (Date y mo d h mi s) ''hh'' = ''12'')
   \<and> (\<forall>y mo d h mi s. formatDate (Date y mo d h mi s) ''A'' = (if h < 12 then ''AM'' else ''PM''))"
proof (intro conjI allI impI)
  show "formatDate (Date 2024 2 5 9 7 3) ''YYYY-MM-DD HH:mm:ss'' = ''2024-03-05 09:07:03''"
    by code_simp
  show "formatDate (Date 2024 0 1 0 30 0) ''hh:mm A'' = ''12:30 AM''"
    by code_simp
next
  fix y mo d h mi s assume "h = 0 \<or> h = (12::nat)"
  then show "formatDate (Date y mo d h mi s) ''hh'' = ''12''" by (rule render_hh)
next
  fix y mo d h mi s
  show "formatDate (Date y mo d h mi s) ''A'' = (if h < 12 then ''AM'' else ''PM'')"
    by (rule render_A)
qed

text \<open>Each preset gives its documented example at 18 January 2026, 14:30:45.\<close>

lemma january_dates:
  "formatDate (Date 2026 0 18 14 30 45) ''YYYY-MM-DD'' = ''2026-01-18''"
  "formatDate (Date 2026 0 18 14 30 45) ''MM/DD/YYYY'' = ''01/18/2026''"
  "formatDate (Date 2026 0 18 14 30 45) ''DD/MM/YYYY'' = ''18/01/2026''"
  "formatDate (Date 2026 0 18 14 30 45) ''DD MMM YYYY'' = ''18 Jan 2026''"
  "formatDate (Date 2026 0 18 14 30 45) ''MMMM DD, YYYY'' = ''January 18, 2026''"
  "formatDate (Date 2026 0 18 14 30 45) ''DD.MM.YYYY'' = ''18.01.2026''"
  by code_simp+

lemma january_times:
  "formatDate (Date 2026 0 18 14 30 45) ''HH:mm:ss'' = ''14:30:45''"
  "formatDate (Date 2026 0 18 14 30 45) ''HH:mm'' = ''14:30''"
  "formatDate (Date 2026 0 18 14 30 45) ''hh:mm:ss A'' = ''02:30:45 PM''"
  "formatDate (Date 2026 0 18 14 30 45) ''hh:mm A'' = ''02:30 PM''"
  "formatDate (Date 2026 0 18 14 30 45) [] = []"
  by code_simp+

lemma presets_render_their_examples:
  "\<forall>p \<in> set DATE_FORMAT_PRESETS. formatDate (Date 2026 0 18 14 30 45) (preset_value p) = example p"
  "\<forall>p \<in> set TIME_FORMAT_PRESETS. formatDate (Date 2026 0 18 14 30 45) (preset_value p) = example p"
  by (simp_all add: DATE_FORMAT_PRESETS_def TIME_FORMAT_PRESETS_def january_dates january_times)

text \<open>
  Claim C3 says that a token string built from the vocabulary renders as the literal
  expected of its tokens, \<open>MMMM\<close> and \<open>MMM\<close> being the full and the abbreviated month
  name. The code breaks it in April and in August: their names begin with the letter
  \<open>A\<close>, and the last substitution, that of the token \<open>A\<close>, rewrites that letter. The
  format that the presets \<open>MMMM DD, YYYY\<close> and \<open>HH:mm:ss\<close> combine to, at 18 August 2024,
  14:30:45, does not give \<open>August 18, 2024 14:30:45\<close>.
\<close>

theorem formatDate_month_name_rewritten:
  "formatDate (Date 2024 7 18 14 30 45) (combineFormats ''MMMM DD, YYYY'' ''HH:mm:ss'')
     = ''PMugust 18, 2024 14:30:45''"
  by code_simp

section \<open>Properties of the metadata resolver\<close>

lemma extract_Throws: "extractImageMetadata Throws = Fulfilled \<lparr>date = New_Date_now, usedFallback = True\<rparr>"
  by (simp add: extractImageMetadata_def)

lemma extract_Resolves:
  "extractImageMetadata (Resolves e) =
     Fulfilled (if truthy (optional_get e DateTimeOriginal)
                then \<lparr>date = New_Date_of (optional_get e DateTimeOriginal), usedFallback = False\<rparr>
                else if truthy (optional_get e CreateDate)
                then \<lparr>date = New_Date_of (optional_get e CreateDate), usedFallback = False\<rparr>
                else if truthy (optional_get e ModifyDate)
                then \<lparr>date = New_Date_of (optional_get e ModifyDate), usedFallback = False\<rparr>
                else \<lparr>date = New_Date_now, usedFallback = True\<rparr>)"
  by (simp add: extractImageMetadata_def)

lemma optional_get_upd_falsy:
  "\<not> truthy v \<Longrightarrow> truthy (optional_get (Some (obj(k \<mapsto> v))) k') = truthy (optional_get (Some (obj(k := None))) k')"
  by (cases "k' = k") simp_all

lemma optional_get_upd_other:
  "\<not> truthy v \<Longrightarrow> truthy (optional_get (Some (obj(k \<mapsto> v))) k') \<Longrightarrow>
     optional_get (Some (obj(k \<mapsto> v))) k' = optional_get (Some (obj(k := None))) k'"
  by (cases "k' = k") simp_all

lemma falsy_as_absent:
  assumes "\<not> truthy v"
  shows "extractImageMetadata (Resolves (Some (obj(k \<mapsto> v)))) = extractImageMetadata (Resolves (Some (obj(k := None))))"
  unfolding extract_Resolves
  using optional_get_upd_falsy [OF assms, of obj k] optional_get_upd_other [OF assms, of obj k]
  by (simp del: optional_get.simps fun_upd_apply)

subsection \<open>Claims on the metadata resolver\<close>

text \<open>
  Claim C4, as the code has it. \<open>extractImageMetadata\<close> never fails: whatever the decoder
  does, the promise is fulfilled. It looks at \<open>DateTimeOriginal\<close>, then \<open>CreateDate\<close>, then
  \<open>ModifyDate\<close>. When the first of them that holds a truthy value holds a valid date, the
  result is that date, as a timestamp, with \<open>usedFallback = false\<close>. When none of the three
  holds a truthy value, or when the decoder throws, the result is the wall clock with
  \<open>usedFallback = true\<close>. Nothing is said here of a first truthy value that is not a valid
  date.
\<close>

theorem extractImageMetadata_first_truthy_field:
  "(\<exists>r. extractImageMetadata outcome = Fulfilled r)
   \<and> (find (\<lambda>k. truthy (optional_get e k)) [DateTimeOriginal, CreateDate, ModifyDate] = Some k
        \<and> optional_get e k = JDate (Date y mo da h mi s) \<longrightarrow>
      (\<exists>r. extractImageMetadata (Resolves e) = Fulfilled r
           \<and> instant_of (date r) = Some (Date y mo da h mi s) \<and> usedFallback r = False))
   \<and> (find (\<lambda>k. truthy (optional_get e k)) [DateTimeOriginal, CreateDate, ModifyDate] = None \<longrightarrow>
      extractImageMetadata (Resolves e) = Fulfilled \<lparr>date = New_Date_now, usedFallback = True\<rparr>)
   \<and> extractImageMetadata Throws = Fulfilled \<lparr>date = New_Date_now, usedFallback = True\<rparr>"
proof (intro conjI impI)
  show "\<exists>r. extractImageMetadata outcome = Fulfilled r"
    by (cases outcome) (simp_all add: extract_Throws extract_Resolves)
next
  assume "find (\<lambda>k. truthy (optional_get e k)) [DateTimeOriginal, CreateDate, ModifyDate] = Some k
        \<and> optional_get e k = JDate (Date y mo da h mi s)"
  then have f: "find (\<lambda>k. truthy (optional_get e k)) [DateTimeOriginal, CreateDate, ModifyDate] = Some k"
    and v: "optional_get e k = JDate (Date y mo da h mi s)" by simp_all
  have "extractImageMetadata (Resolves e)
      = Fulfilled \<lparr>date = New_Date_of (JDate (Date y mo da h mi s)), usedFallback = False\<rparr>"
    using f v unfolding extract_Resolves
    by (auto simp del: optional_get.simps split: if_splits)
  then show "\<exists>r. extractImageMetadata (Resolves e) = Fulfilled r
           \<and> instant_of (date r) = Some (Date y mo da h mi s) \<and> usedFallback r = False"
    by simp
next
  assume "find (\<lambda>k. truthy (optional_get e k)) [DateTimeOriginal, CreateDate, ModifyDate] = None"
  then show "extractImageMetadata (Resolves e) = Fulfilled \<lparr>date = New_Date_now, usedFallback = True\<rparr>"
    unfolding extract_Resolves by (simp del: optional_get.simps split: if_splits)
next
  show "extractImageMetadata Throws = Fulfilled \<lparr>date = New_Date_now, usedFallback = True\<rparr>"
    by (rule extract_Throws)
qed

text \<open>The theorem of claim C4 on an object with \<open>CreateDate\<close> and \<open>ModifyDate\<close>, on an object
  with no field, and on a decoder that throws.\<close>

theorem extractImageMetadata_first_truthy_field_witness:
  "find (\<lambda>k. truthy (optional_get (Some [CreateDate \<mapsto> JDate (Date 2023 5 1 12 0 0), ModifyDate \<mapsto> JDate (Date 2024 0 1 0 0 0)]) k))
       [DateTimeOriginal, CreateDate, ModifyDate] = Some CreateDate
   \<and> optional_get (Some [CreateDate \<mapsto> JDate (Date 2023 5 1 12 0 0), ModifyDate \<mapsto> JDate (Date 2024 0 1 0 0 0)]) CreateDate
       = JDate (Date 2023 5 1 12 0 0)
   \<and> (\<exists>r. extractImageMetadata (Resolves (Some [CreateDate \<mapsto> JDate (Date 2023 5 1 12 0 0), ModifyDate \<mapsto> JDate (Date 2024 0 1 0 0 0)]))
            = Fulfilled r
          \<and> instant_of (date r) = Some (Date 2023 5 1 12 0 0) \<and> usedFallback r = False)
   \<and> find (\<lambda>k. truthy (optional_get (Some Map.empty) k)) [DateTimeOriginal, CreateDate, ModifyDate] = None
   \<and> extractImageMetadata (Resolves (Some Map.empty)) = Fulfilled \<lparr>date = New_Date_now, usedFallback = True\<rparr>
   \<and> extractImageMetadata Throws = Fulfilled \<lparr>date = New_Date_now, usedFallback = True\<rparr>"
proof -
  let ?e = "Some [CreateDate \<mapsto> JDate (Date 2023 5 1 12 0 0), ModifyDate \<mapsto> JDate (Date 2024 0 1 0 0 0)]"
  have h1: "find (\<lambda>k. truthy (optional_get ?e k)) [DateTimeOriginal, CreateDate, ModifyDate] = Some CreateDate"
    by simp
  have h2: "optional_get ?e CreateDate = JDate (Date 2023 5 1 12 0 0)" by simp
  have h3: "find (\<lambda>k. truthy (optional_get (Some Map.empty) k)) [DateTimeOriginal, CreateDate, ModifyDate] = None"
    by simp
  note a = extractImageMetadata_first_truthy_field [where e = ?e and k = CreateDate and y = 2023 and mo = 5
      and da = 1 and h = 12 and mi = 0 and s = 0, THEN conjunct2, THEN conjunct1, rule_format, OF conjI [OF h1 h2]]
  note b = extractImageMetadata_first_truthy_field [where e = "Some Map.empty", THEN conjunct2, THEN conjunct2,
      THEN conjunct1, rule_format, OF h3]
  note c = extractImageMetadata_first_truthy_field [THEN conjunct2, THEN conjunct2, THEN conjunct2]
  from h1 h2 a h3 b c show ?thesis by (intro conjI)
qed

text \<open>
  Claim C4 as the specification states it speaks of the first field \<^emph>\<open>present\<close>. That
  fails on a field that is present with a falsy value: with \<open>DateTimeOriginal\<close> present as
  the empty string and nothing else, the first field present is \<open>DateTimeOriginal\<close>, and
  the code returns the wall clock with \<open>usedFallback = true\<close>.
\<close>

theorem extractImageMetadata_present_falsy_counterexample:
  "present (Some [DateTimeOriginal \<mapsto> JString []]) DateTimeOriginal
   \<and> extractImageMetadata (Resolves (Some [DateTimeOriginal \<mapsto> JString []]))
       = Fulfilled \<lparr>date = New_Date_now, usedFallback = True\<rparr>
   \<and> resolve_first_present (Resolves (Some [DateTimeOriginal \<mapsto> JString []]))
       = \<lparr>date = New_Date_of (JString []), usedFallback = False\<rparr>
   \<and> extractImageMetadata (Resolves (Some [DateTimeOriginal \<mapsto> JString []]))
       \<noteq> Fulfilled (resolve_first_present (Resolves (Some [DateTimeOriginal \<mapsto> JString []])))"
  by (simp add: extract_Resolves resolve_first_present_def)

text \<open>
  Claim C10. A field that is present with a falsy value is treated as if it were absent:
  the result is the one of the same object without the field. The resolver falls through
  a falsy or missing \<open>DateTimeOriginal\<close> to \<open>CreateDate\<close>, through that to \<open>ModifyDate\<close>,
  and when each of the three is falsy or missing it returns the wall clock with
  \<open>usedFallback = true\<close>.
\<close>

theorem extractImageMetadata_falsy_as_absent:
  "(\<not> truthy v \<longrightarrow>
      extractImageMetadata (Resolves (Some (obj(k \<mapsto> v)))) = extractImageMetadata (Resolves (Some (obj(k := None)))))
   \<and> (\<not> truthy (optional_get e DateTimeOriginal) \<and> truthy (optional_get e CreateDate) \<longrightarrow>
      extractImageMetadata (Resolves e) = Fulfilled \<lparr>date = New_Date_of (optional_get e CreateDate), usedFallback = False\<rparr>)
   \<and> (\<not> truthy (optional_get e DateTimeOriginal) \<and> \<not> truthy (optional_get e CreateDate)
        \<and> truthy (optional_get e ModifyDate) \<longrightarrow>
      extractImageMetadata (Resolves e) = Fulfilled \<lparr>date = New_Date_of (optional_get e ModifyDate), usedFallback = False\<rparr>)
   \<and> (\<not> truthy (optional_get e DateTimeOriginal) \<and> \<not> truthy (optional_get e CreateDate)
        \<and> \<not> truthy (optional_get e ModifyDate) \<longrightarrow>
      extractImageMetadata (Resolves e) = Fulfilled \<lparr>date = New_Date_now, usedFallback = True\<rparr>)"
  using falsy_as_absent [of v obj k] by (simp add: extract_Resolves)

text \<open>The theorem of claim C10 with the number \<open>0\<close> and the empty string as falsy values.\<close>

theorem extractImageMetadata_falsy_as_absent_witness:
  "\<not> truthy (JNumber (Num 0)) \<and> \<not> truthy (JString [])
   \<and> extractImageMetadata (Resolves (Some [DateTimeOriginal \<mapsto> JNumber (Num 0), CreateDate \<mapsto> JDate (Date 2023 5 1 12 0 0)]))
       = Fulfilled \<lparr>date = New_Date_of (JDate (Date 2023 5 1 12 0 0)), usedFallback = False\<rparr>
   \<and> extractImageMetadata (Resolves (Some [DateTimeOriginal \<mapsto> JNumber (Num 0), CreateDate \<mapsto> JString [], ModifyDate \<mapsto> JNumber (Num 0)]))
       = Fulfilled \<lparr>date = New_Date_now, usedFallback = True\<rparr>"
  using extractImageMetadata_falsy_as_absent [of "JNumber (Num 0)" "Map.empty" DateTimeOriginal "Some [DateTimeOriginal \<mapsto> JNumber (Num 0), CreateDate \<mapsto> JDate (Date 2023 5 1 12 0 0)]"]
    extractImageMetadata_falsy_as_absent [of "JNumber (Num 0)" "Map.empty" DateTimeOriginal "Some [DateTimeOriginal \<mapsto> JNumber (Num 0), CreateDate \<mapsto> JString [], ModifyDate \<mapsto> JNumber (Num 0)]"]
  by simp

section \<open>Properties of the overlay compositor\<close>

text \<open>The drawing, written out: with a stroke, and without one.\<close>

lemma draw_overlay_stroke:
  assumes "0 < strokeWidth config"
  shows "draw_overlay config img ts tw =
     [(DrawImage 0 0, new_context),
      (StrokeText ts (fst (anchor config img tw)) (snd (anchor config img tw)),
         (if dropShadowEnabled config
          then new_context\<lparr>font := (relativeFontSize config img, fontFamily config),
                  textBaseline := ''bottom'',
                  shadowBlur := dropShadowBlur config,
                  shadowOffsetX := dropShadowOffsetX config,
                  shadowOffsetY := dropShadowOffsetY config,
                  shadowColor := dropShadowColor config\<rparr>
          else new_context\<lparr>font := (relativeFontSize config img, fontFamily config),
                  textBaseline := ''bottom''\<rparr>)
         \<lparr>strokeStyle := strokeColor config, lineWidth := strokeWidth config, lineJoin := ''round''\<rparr>),
      (FillText ts (fst (anchor config img tw)) (snd (anchor config img tw)),
         (if dropShadowEnabled config
          then new_context\<lparr>font := (relativeFontSize config img, fontFamily config),
                  textBaseline := ''bottom'',
                  shadowColor := dropShadowColor config\<rparr>
          else new_context\<lparr>font := (relativeFontSize config img, fontFamily config),
                  textBaseline := ''bottom''\<rparr>)
         \<lparr>shadowBlur := 0, shadowOffsetX := 0, shadowOffsetY := 0,
          strokeStyle := strokeColor config, lineWidth := strokeWidth config, lineJoin := ''round'',
          fillStyle := fontColor config\<rparr>)]"
  using assms by (simp add: draw_overlay_def Let_def split_beta)

lemma draw_overlay_no_stroke:
  assumes "\<not> 0 < strokeWidth config"
  shows "draw_overlay config img ts tw =
     [(DrawImage 0 0, new_context),
      (FillText ts (fst (anchor config img tw)) (snd (anchor config img tw)),
         (if dropShadowEnabled config
          then new_context\<lparr>font := (relativeFontSize config img, fontFamily config),
                  textBaseline := ''bottom'',
                  shadowColor := dropShadowColor config\<rparr>
          else new_context\<lparr>font := (relativeFontSize config img, fontFamily config),
                  textBaseline := ''bottom''\<rparr>)
         \<lparr>shadowBlur := 0, shadowOffsetX := 0, shadowOffsetY := 0,
          fillStyle := fontColor config\<rparr>)]"
  using assms by (simp add: draw_overlay_def Let_def split_beta)

lemma sample_drawing:
  "draw_overlay (DEFAULT_CONFIG\<lparr>dropShadowEnabled := True\<rparr>) \<lparr>width = 1000, height = 1000\<rparr>
       ''2024-03-05 09:07:03'' 300
   = [(DrawImage 0 0, new_context),
      (StrokeText ''2024-03-05 09:07:03'' 680 980,
       \<lparr>font = (100, ''Inter''), textBaseline = ''bottom'',
        shadowBlur = 4, shadowOffsetX = 2, shadowOffsetY = 2, shadowColor = ''rgba(0, 0, 0, 0.5)'',
        strokeStyle = ''#000000'', lineWidth = 5, lineJoin = ''round'', fillStyle = ''#000000''\<rparr>),
      (FillText ''2024-03-05 09:07:03'' 680 980,
       \<lparr>font = (100, ''Inter''), textBaseline = ''bottom'',
        shadowBlur = 0, shadowOffsetX = 0, shadowOffsetY = 0, shadowColor = ''rgba(0, 0, 0, 0.5)'',
        strokeStyle = ''#000000'', lineWidth = 5, lineJoin = ''round'', fillStyle = ''#FBBF24''\<rparr>)]"
  by (simp add: draw_overlay_def Let_def DEFAULT_CONFIG_def anchor_def relativeFontSize_def new_context_def)

subsection \<open>Claims on the overlay compositor\<close>

text \<open>
  Claim C5. For every image width \<open>W\<close> and every configured font size \<open>s\<close> the effective
  font size is \<open>max (min s (W / 10)) 24\<close>: it is \<open>24\<close> when \<open>W / 10\<close> is below \<open>24\<close>;
  otherwise it lies between \<open>24\<close> and \<open>W / 10\<close>, is \<open>24\<close> for \<open>s\<close> below \<open>24\<close> and
  \<open>min s (W / 10)\<close> for \<open>s\<close> from \<open>24\<close> on. A configured size of \<open>500\<close> on an image
  \<open>240\<close> pixels wide gives \<open>24\<close>. It is the size of the font the text is drawn in.
\<close>

theorem relativeFontSize_clamp:
  "relativeFontSize config img = max (min (fontSize config) (real (width img) / 10)) 24
   \<and> (real (width img) / 10 < 24 \<longrightarrow> relativeFontSize config img = 24)
   \<and> (24 \<le> real (width img) / 10 \<longrightarrow>
        24 \<le> relativeFontSize config img \<and> relativeFontSize config img \<le> real (width img) / 10
        \<and> (fontSize config < 24 \<longrightarrow> relativeFontSize config img = 24)
        \<and> (24 \<le> fontSize config \<longrightarrow> relativeFontSize config img = min (fontSize config) (real (width img) / 10)))
   \<and> (fontSize config = 500 \<and> width img = 240 \<longrightarrow> relativeFontSize config img = 24)
   \<and> font (snd (last (draw_overlay config img ts tw))) = (relativeFontSize config img, fontFamily config)"
proof -
  have "font (snd (last (draw_overlay config img ts tw))) = (relativeFontSize config img, fontFamily config)"
    by (cases "0 < strokeWidth config") (simp_all add: draw_overlay_stroke draw_overlay_no_stroke)
  then show ?thesis by (auto simp: relativeFontSize_def)
qed

text \<open>The theorem of claim C5 at size \<open>500\<close> on width \<open>240\<close>, and at the default size \<open>120\<close>
  on widths \<open>4000\<close> and \<open>800\<close>.\<close>

theorem relativeFontSize_clamp_witness:
  "fontSize (DEFAULT_CONFIG\<lparr>fontSize := 500\<rparr>) = 500 \<and> width \<lparr>width = 240, height = 180\<rparr> = 240
   \<and> real (width \<lparr>width = 240, height = 180\<rparr>) / 10 \<le> 24
   \<and> relativeFontSize (DEFAULT_CONFIG\<lparr>fontSize := 500\<rparr>) \<lparr>width = 240, height = 180\<rparr> = 24
   \<and> 24 \<le> real (width \<lparr>width = 4000, height = 3000\<rparr>) / 10
   \<and> relativeFontSize DEFAULT_CONFIG \<lparr>width = 4000, height = 3000\<rparr> = 120
   \<and> relativeFontSize DEFAULT_CONFIG \<lparr>width = 800, height = 600\<rparr> = 80"
  using relativeFontSize_clamp [of "DEFAULT_CONFIG\<lparr>fontSize := 500\<rparr>" "\<lparr>width = 240, height = 180\<rparr>"]
    relativeFontSize_clamp [of DEFAULT_CONFIG "\<lparr>width = 4000, height = 3000\<rparr>"]
    relativeFontSize_clamp [of DEFAULT_CONFIG "\<lparr>width = 800, height = 600\<rparr>"]
  by (simp add: DEFAULT_CONFIG_def)

text \<open>
  Claim C6. For an image of width \<open>W\<close> and height \<open>H\<close>, measured text width \<open>tw\<close> and
  effective font size \<open>f\<close>, the anchor is \<open>x = W - tw - offsetX\<close> for \<open>topRight\<close> and
  \<open>bottomRight\<close> and \<open>x = offsetX\<close> for the left positions, \<open>y = H - offsetY\<close> for the
  bottom positions and \<open>y = f + offsetY\<close> for the top positions. The fill, and the stroke
  when there is one, are drawn at this anchor. On a \<open>1000\<close> by \<open>1000\<close> image with
  \<open>bottomRight\<close> and offsets \<open>20\<close>, \<open>x = 1000 - tw - 20\<close>.
\<close>

theorem anchor_placement:
  "fst (anchor config img tw) =
     (if position config = topRight \<or> position config = bottomRight
      then real (width img) - tw - offsetX config else offsetX config)
   \<and> snd (anchor config img tw) =
     (if position config = bottomLeft \<or> position config = bottomRight
      then real (height img) - offsetY config else relativeFontSize config img + offsetY config)
   \<and> fst (last (draw_overlay config img ts tw)) = FillText ts (fst (anchor config img tw)) (snd (anchor config img tw))
   \<and> (0 < strokeWidth config \<longrightarrow>
        fst (draw_overlay config img ts tw ! 1) = StrokeText ts (fst (anchor config img tw)) (snd (anchor config img tw)))
   \<and> (width img = 1000 \<and> height img = 1000 \<and> position config = bottomRight
        \<and> offsetX config = 20 \<and> offsetY config = 20 \<longrightarrow>
        fst (anchor config img tw) = 1000 - tw - 20)"
proof -
  have a: "fst (last (draw_overlay config img ts tw)) = FillText ts (fst (anchor config img tw)) (snd (anchor config img tw))"
    by (cases "0 < strokeWidth config") (simp_all add: draw_overlay_stroke draw_overlay_no_stroke)
  have b: "0 < strokeWidth config \<longrightarrow>
        fst (draw_overlay config img ts tw ! 1) = StrokeText ts (fst (anchor config img tw)) (snd (anchor config img tw))"
    by (simp add: draw_overlay_stroke)
  show ?thesis using a b
    by (cases "position config") (simp_all add: anchor_def)
qed

text \<open>The theorem of claim C6 on a \<open>1000\<close> by \<open>1000\<close> image with a text \<open>300\<close> wide, at
  the default configuration and at \<open>topLeft\<close>.\<close>

theorem anchor_placement_witness:
  "0 < strokeWidth DEFAULT_CONFIG
   \<and> width \<lparr>width = 1000, height = 1000\<rparr> = 1000 \<and> height \<lparr>width = 1000, height = 1000\<rparr> = 1000
   \<and> position DEFAULT_CONFIG = bottomRight \<and> offsetX DEFAULT_CONFIG = 20 \<and> offsetY DEFAULT_CONFIG = 20
   \<and> anchor DEFAULT_CONFIG \<lparr>width = 1000, height = 1000\<rparr> 300 = (680, 980)
   \<and> anchor (DEFAULT_CONFIG\<lparr>position := topLeft\<rparr>) \<lparr>width = 1000, height = 1000\<rparr> 300 = (20, 120)"
  using anchor_placement [of DEFAULT_CONFIG "\<lparr>width = 1000, height = 1000\<rparr>" 300]
    anchor_placement [of "DEFAULT_CONFIG\<lparr>position := topLeft\<rparr>" "\<lparr>width = 1000, height = 1000\<rparr>" 300]
  by (simp add: DEFAULT_CONFIG_def anchor_def relativeFontSize_def)

text \<open>
  Claim C7, as the code has it. The image is drawn first. When \<open>strokeWidth\<close> is positive
  the outline is drawn next, at that width, with round joins, in \<open>strokeColor\<close>, and with
  the shadow blur, offsets and colour of the configuration when the shadow is enabled
  (with no shadow when it is not). The fill is drawn last, at the same anchor, in
  \<open>fontColor\<close>, after the shadow blur and both shadow offsets have been set to zero, so the
  fill casts no shadow; the shadow colour is not reset, it stays what it was for the
  stroke. When \<open>strokeWidth\<close> is not positive only the image and the fill are drawn.
\<close>

theorem draw_overlay_layer_order:
  "(0 < strokeWidth config \<longrightarrow>
      (\<exists>cs cf. draw_overlay config img ts tw =
           [(DrawImage 0 0, new_context),
            (StrokeText ts (fst (anchor config img tw)) (snd (anchor config img tw)), cs),
            (FillText ts (fst (anchor config img tw)) (snd (anchor config img tw)), cf)]
         \<and> strokeStyle cs = strokeColor config \<and> lineWidth cs = strokeWidth config \<and> lineJoin cs = ''round''
         \<and> (dropShadowEnabled config \<longrightarrow>
               shadowBlur cs = dropShadowBlur config \<and> shadowOffsetX cs = dropShadowOffsetX config
             \<and> shadowOffsetY cs = dropShadowOffsetY config \<and> shadowColor cs = dropShadowColor config)
         \<and> (\<not> dropShadowEnabled config \<longrightarrow> shadow_off cs \<and> shadowColor cs = shadowColor new_context)
         \<and> shadow_off cf \<and> shadowColor cf = shadowColor cs \<and> fillStyle cf = fontColor config))
   \<and> (\<not> 0 < strokeWidth config \<longrightarrow>
      (\<exists>cf. draw_overlay config img ts tw =
           [(DrawImage 0 0, new_context),
            (FillText ts (fst (anchor config img tw)) (snd (anchor config img tw)), cf)]
         \<and> shadow_off cf \<and> fillStyle cf = fontColor config))
   \<and> shadow_off new_context"
proof (intro conjI impI)
  assume s: "0 < strokeWidth config"
  show "\<exists>cs cf. draw_overlay config img ts tw =
           [(DrawImage 0 0, new_context),
            (StrokeText ts (fst (anchor config img tw)) (snd (anchor config img tw)), cs),
            (FillText ts (fst (anchor config img tw)) (snd (anchor config img tw)), cf)]
         \<and> strokeStyle cs = strokeColor config \<and> lineWidth cs = strokeWidth config \<and> lineJoin cs = ''round''
         \<and> (dropShadowEnabled config \<longrightarrow>
               shadowBlur cs = dropShadowBlur config \<and> shadowOffsetX cs = dropShadowOffsetX config
             \<and> shadowOffsetY cs = dropShadowOffsetY config \<and> shadowColor cs = dropShadowColor config)
         \<and> (\<not> dropShadowEnabled config \<longrightarrow> shadow_off cs \<and> shadowColor cs = shadowColor new_context)
         \<and> shadow_off cf \<and> shadowColor cf = shadowColor cs \<and> fillStyle cf = fontColor config"
    unfolding draw_overlay_stroke [OF s]
    by (intro exI conjI) (rule refl, simp_all add: shadow_off_def new_context_def)
next
  assume s: "\<not> 0 < strokeWidth config"
  show "\<exists>cf. draw_overlay config img ts tw =
           [(DrawImage 0 0, new_context),
            (FillText ts (fst (anchor config img tw)) (snd (anchor config img tw)), cf)]
         \<and> shadow_off cf \<and> fillStyle cf = fontColor config"
    unfolding draw_overlay_no_stroke [OF s]
    by (intro exI conjI) (rule refl, simp_all add: shadow_off_def)
next
  show "shadow_off new_context" by (simp add: shadow_off_def new_context_def)
qed

text \<open>The theorem of claim C7 at the default configuration with the shadow enabled.\<close>

theorem draw_overlay_layer_order_witness:
  "0 < strokeWidth (DEFAULT_CONFIG\<lparr>dropShadowEnabled := True\<rparr>)
   \<and> dropShadowEnabled (DEFAULT_CONFIG\<lparr>dropShadowEnabled := True\<rparr>)
   \<and> map fst (draw_overlay (DEFAULT_CONFIG\<lparr>dropShadowEnabled := True\<rparr>) \<lparr>width = 1000, height = 1000\<rparr>
        ''2024-03-05 09:07:03'' 300)
       = [DrawImage 0 0, StrokeText ''2024-03-05 09:07:03'' 680 980, FillText ''2024-03-05 09:07:03'' 680 980]
   \<and> shadowBlur (snd (draw_overlay (DEFAULT_CONFIG\<lparr>dropShadowEnabled := True\<rparr>) \<lparr>width = 1000, height = 1000\<rparr>
        ''2024-03-05 09:07:03'' 300 ! 1)) = 4
   \<and> shadow_off (snd (draw_overlay (DEFAULT_CONFIG\<lparr>dropShadowEnabled := True\<rparr>) \<lparr>width = 1000, height = 1000\<rparr>
        ''2024-03-05 09:07:03'' 300 ! 2))"
proof -
  have h: "0 < strokeWidth (DEFAULT_CONFIG\<lparr>dropShadowEnabled := True\<rparr>)"
    "dropShadowEnabled (DEFAULT_CONFIG\<lparr>dropShadowEnabled := True\<rparr>)"
    by (simp_all add: DEFAULT_CONFIG_def)
  have r: "map fst (draw_overlay (DEFAULT_CONFIG\<lparr>dropShadowEnabled := True\<rparr>) \<lparr>width = 1000, height = 1000\<rparr>
        ''2024-03-05 09:07:03'' 300)
       = [DrawImage 0 0, StrokeText ''2024-03-05 09:07:03'' 680 980, FillText ''2024-03-05 09:07:03'' 680 980]"
    "shadowBlur (snd (draw_overlay (DEFAULT_CONFIG\<lparr>dropShadowEnabled := True\<rparr>) \<lparr>width = 1000, height = 1000\<rparr>
        ''2024-03-05 09:07:03'' 300 ! 1)) = 4"
    "shadow_off (snd (draw_overlay (DEFAULT_CONFIG\<lparr>dropShadowEnabled := True\<rparr>) \<lparr>width = 1000, height = 1000\<rparr>
        ''2024-03-05 09:07:03'' 300 ! 2))"
    by (simp_all add: sample_drawing shadow_off_def)
  from draw_overlay_layer_order [of "DEFAULT_CONFIG\<lparr>dropShadowEnabled := True\<rparr>" "\<lparr>width = 1000, height = 1000\<rparr>"
      "''2024-03-05 09:07:03''" 300] h r
  show ?thesis by simp
qed

text \<open>
  Claim C7 as the specification states it has the shadow reset to zero blur, zero offsets
  and a transparent colour before the fill. With the shadow enabled the colour at the fill
  is still the configured one, black at half opacity in the default configuration.
\<close>

theorem draw_overlay_shadow_colour_counterexample:
  "\<not> shadow_neutral (snd (last (draw_overlay (DEFAULT_CONFIG\<lparr>dropShadowEnabled := True\<rparr>)
        \<lparr>width = 1000, height = 1000\<rparr> ''2024-03-05 09:07:03'' 300)))
   \<and> shadowColor (snd (last (draw_overlay (DEFAULT_CONFIG\<lparr>dropShadowEnabled := True\<rparr>)
        \<lparr>width = 1000, height = 1000\<rparr> ''2024-03-05 09:07:03'' 300))) = ''rgba(0, 0, 0, 0.5)''"
  by (simp add: sample_drawing shadow_neutral_def)

section \<open>Properties of the batch orchestrator\<close>

subsection \<open>The states of the loop\<close>

lemma process_loop_length: "length (process_loop others P i pairs s) = length pairs"
  by (induction pairs arbitrary: i s) (simp_all add: Let_def)

lemma process_loop_nth:
  "m < length pairs \<Longrightarrow>
     (s # process_loop others P i pairs s) ! Suc m
       = loop_body others P (i + m) (pairs ! m) ((s # process_loop others P i pairs s) ! m)"
proof (induction pairs arbitrary: i s m)
  case Nil
  then show ?case by simp
next
  case (Cons p rest)
  show ?case
  proof (cases m)
    case 0
    then show ?thesis by (simp add: Let_def)
  next
    case (Suc m')
    with Cons.prems have "m' < length rest" by simp
    from Cons.IH [OF this, of "loop_body others P i p s" "Suc i"] Suc
    show ?thesis by (simp add: Let_def)
  qed
qed

lemma image_id_new_image: "image_id (new_image i f) = i"
  by (simp add: new_image_def)

lemma image_id_settle: "image_id (settle out img) = image_id img"
  by (cases out) simp_all

lemma status_settle: "status (settle out img) = (case out of Fulfilled r \<Rightarrow> Done | Rejected \<Rightarrow> Error)"
  by (cases out) simp_all

lemma originalName_settle: "originalName (settle out img) = originalName img"
  by (cases out) simp_all

lemma processedUrl_settle: "processedUrl (settle (Fulfilled r) img) = url r"
  by simp

lemma mark_as_settle:
  "(case out of Fulfilled r \<Rightarrow> mark_done i r xs | Rejected \<Rightarrow> mark_error i xs)
     = map (\<lambda>img. if image_id img = i then settle out img else img) xs"
  by (cases out) (simp_all add: mark_done_def mark_error_def)

lemma mark_done_as_settle: "mark_done i r xs = map (\<lambda>img. if image_id img = i then settle (Fulfilled r) img else img) xs"
  by (simp add: mark_done_def)

lemma mark_error_as_settle: "mark_error i xs = map (\<lambda>img. if image_id img = i then settle Rejected img else img) xs"
  by (simp add: mark_error_def)

lemma filter_settle_map:
  "filter (\<lambda>img. Q (image_id img)) (map (\<lambda>img. if image_id img = i then settle out img else img) xs)
     = map (\<lambda>img. if image_id img = i then settle out img else img) (filter (\<lambda>img. Q (image_id img)) xs)"
  by (induction xs) (simp_all add: image_id_settle)

lemma settle_map_outside:
  "i \<notin> image_id ` set xs \<Longrightarrow> map (\<lambda>img. if image_id img = i then settle out img else img) xs = xs"
  by (induction xs) auto

lemma filter_in_settle:
  "i \<notin> set ids \<Longrightarrow>
   filter (\<lambda>img. image_id img \<in> set ids) (map (\<lambda>img. if image_id img = i then settle out img else img) xs)
     = filter (\<lambda>img. image_id img \<in> set ids) xs"
  using filter_settle_map [of "\<lambda>x. x \<in> set ids" i out xs]
    settle_map_outside [of i "filter (\<lambda>img. image_id img \<in> set ids) xs" out]
  by auto

lemma filter_out_settle:
  "i \<in> set ids \<Longrightarrow>
   filter (\<lambda>img. image_id img \<notin> set ids) (map (\<lambda>img. if image_id img = i then settle out img else img) xs)
     = filter (\<lambda>img. image_id img \<notin> set ids) xs"
  using filter_settle_map [of "\<lambda>x. x \<notin> set ids" i out xs]
    settle_map_outside [of i "filter (\<lambda>img. image_id img \<notin> set ids) xs" out]
  by auto

lemma records_of_other:
  "leaves_alone ids h \<Longrightarrow> records_of ids (other_handler h s) = records_of ids s"
proof (cases h)
  case Clear_All
  assume "leaves_alone ids h"
  with Clear_All show ?thesis by simp
next
  case (Other_Append xs)
  assume "leaves_alone ids h"
  with Other_Append have "filter (\<lambda>img. image_id img \<in> set ids) xs = []"
    by (auto simp: list_all_iff filter_empty_conv)
  with Other_Append show ?thesis by (simp add: records_of_def)
next
  case (Other_Done i r)
  assume "leaves_alone ids h"
  with Other_Done show ?thesis
    by (simp add: records_of_def mark_done_as_settle filter_in_settle del: settle.simps)
next
  case (Other_Error i)
  assume "leaves_alone ids h"
  with Other_Error show ?thesis
    by (simp add: records_of_def mark_error_as_settle filter_in_settle del: settle.simps)
qed

lemma records_of_others:
  "list_all (leaves_alone ids) hs \<Longrightarrow> records_of ids (fold other_handler hs s) = records_of ids s"
  by (induction hs arbitrary: s) (simp_all add: records_of_other)

lemma records_of_loop_body:
  assumes "list_all (leaves_alone ids) (others i)"
  shows "records_of ids (loop_body others P i p s)
           = map (\<lambda>img. if image_id img = snd p then settle (P i (fst p)) img else img) (records_of ids s)"
proof -
  have "records_of ids (loop_body others P i p s)
      = map (\<lambda>img. if image_id img = snd p then settle (P i (fst p)) img else img)
          (records_of ids (fold other_handler (others i) s))"
    unfolding loop_body_def Let_def mark_as_settle records_of_def
    using filter_settle_map [of "\<lambda>x. x \<in> set ids"] by simp
  then show ?thesis unfolding records_of_others [OF assms] .
qed

lemma records_outside_loop_body:
  assumes "snd p \<in> set ids"
  shows "records_outside ids (loop_body others P i p s) = records_outside ids (fold other_handler (others i) s)"
  unfolding loop_body_def Let_def mark_as_settle records_outside_def
  using filter_out_settle [OF assms] by simp

lemma batch_state_length: "length (batch_state P g fs k) = length fs"
  by (simp add: batch_state_def)

lemma batch_state_nth:
  "j < length fs \<Longrightarrow> batch_state P g fs k ! j
     = (if j < k then settle (P j (fs ! j)) (new_image (g j) (fs ! j)) else new_image (g j) (fs ! j))"
  by (simp add: batch_state_def nth_enumerate_eq)

lemma batch_state_step:
  assumes d: "distinct (map g [0..<length fs])" and k: "k < length fs"
  shows "map (\<lambda>img. if image_id img = g k then settle (P k (fs ! k)) img else img) (batch_state P g fs k)
           = batch_state P g fs (Suc k)"
proof (rule nth_equalityI)
  show "length (map (\<lambda>img. if image_id img = g k then settle (P k (fs ! k)) img else img) (batch_state P g fs k))
      = length (batch_state P g fs (Suc k))"
    by (simp add: batch_state_length)
next
  fix j assume "j < length (map (\<lambda>img. if image_id img = g k then settle (P k (fs ! k)) img else img) (batch_state P g fs k))"
  then have j: "j < length fs" by (simp add: batch_state_length)
  from d j k have inj: "g j = g k \<longleftrightarrow> j = k"
    using nth_eq_iff_index_eq [of "map g [0..<length fs]" j k] by simp
  have id: "image_id (batch_state P g fs k ! j) = g j"
    by (simp add: batch_state_nth [OF j] image_id_settle image_id_new_image)
  have l: "map (\<lambda>img. if image_id img = g k then settle (P k (fs ! k)) img else img) (batch_state P g fs k) ! j
      = (if j = k then settle (P k (fs ! k)) (batch_state P g fs k ! j) else batch_state P g fs k ! j)"
    using j by (simp add: batch_state_length id inj del: settle.simps)
  consider "j < k" | "j = k" | "k < j" by linarith
  then show "map (\<lambda>img. if image_id img = g k then settle (P k (fs ! k)) img else img) (batch_state P g fs k) ! j
      = batch_state P g fs (Suc k) ! j"
    unfolding l using k j by cases (simp_all add: batch_state_nth del: settle.simps)
qed

subsection \<open>The records of a batch, state by state\<close>

lemma new_images_batch_state:
  "map (\<lambda>(k, f). new_image (g k) f) (enumerate 0 fs) = batch_state P g fs 0"
  by (simp add: batch_state_def)

lemma batch_state_ids: "map image_id (batch_state P g fs k) = map g [0..<length fs]"
proof (rule nth_equalityI)
  show "length (map image_id (batch_state P g fs k)) = length (map g [0..<length fs])"
    by (simp add: batch_state_length)
next
  fix j assume "j < length (map image_id (batch_state P g fs k))"
  then have j: "j < length fs" by (simp add: batch_state_length)
  then show "map image_id (batch_state P g fs k) ! j = map g [0..<length fs] ! j"
    by (simp add: batch_state_length batch_state_nth image_id_settle image_id_new_image del: settle.simps)
qed

lemma handleFiles_unfold:
  assumes "validFiles files \<noteq> []"
  shows "handleFiles others P g files s =
           s\<lparr>images_state := images_state s @ batch_state P g (validFiles files) 0\<rparr>
           # process_loop others P 0 (zip (validFiles files) (batch_ids g files))
               (s\<lparr>images_state := images_state s @ batch_state P g (validFiles files) 0\<rparr>)"
  using assms
  by (simp add: handleFiles_def Let_def new_images_batch_state [of g _ P] batch_state_ids batch_ids_def)

lemma handleFiles_length:
  assumes "validFiles files \<noteq> []"
  shows "length (handleFiles others P g files s) = Suc (length (validFiles files))"
  unfolding handleFiles_unfold [OF assms] by (simp add: process_loop_length batch_ids_def)

lemma handleFiles_0:
  assumes "validFiles files \<noteq> []"
  shows "handleFiles others P g files s ! 0
           = s\<lparr>images_state := images_state s @ batch_state P g (validFiles files) 0\<rparr>"
  unfolding handleFiles_unfold [OF assms] by simp

lemma handleFiles_Suc:
  assumes "validFiles files \<noteq> []" and "k < length (validFiles files)"
  shows "handleFiles others P g files s ! Suc k
           = loop_body others P k (validFiles files ! k, g k) (handleFiles others P g files s ! k)"
proof -
  let ?pairs = "zip (validFiles files) (batch_ids g files)"
  from assms(2) have len: "k < length ?pairs" by (simp add: batch_ids_def)
  from assms(2) have nth: "?pairs ! k = (validFiles files ! k, g k)" by (simp add: batch_ids_def)
  show ?thesis
    unfolding handleFiles_unfold [OF assms(1)]
    using process_loop_nth [OF len, of _ others P 0] by (simp only: nth add_0)
qed

lemma records_of_start:
  assumes "set (map g [0..<length fs]) \<inter> image_id ` set (images_state s) = {}"
  shows "records_of (map g [0..<length fs]) (s\<lparr>images_state := images_state s @ batch_state P g fs 0\<rparr>)
           = batch_state P g fs 0"
proof -
  from assms have "filter (\<lambda>img. image_id img \<in> set (map g [0..<length fs])) (images_state s) = []"
    by (auto simp: filter_empty_conv)
  moreover have "filter (\<lambda>img. image_id img \<in> set (map g [0..<length fs])) (batch_state P g fs 0)
      = batch_state P g fs 0"
  proof (rule filter_True, rule ballI)
    fix x assume "x \<in> set (batch_state P g fs 0)"
    then have "image_id x \<in> set (map image_id (batch_state P g fs 0))" by simp
    then show "image_id x \<in> set (map g [0..<length fs])" unfolding batch_state_ids .
  qed
  ultimately show ?thesis by (simp add: records_of_def)
qed

lemma handleFiles_records:
  assumes ne: "validFiles files \<noteq> []"
    and d: "distinct (batch_ids g files)"
    and fr: "set (batch_ids g files) \<inter> image_id ` set (images_state s) = {}"
    and u: "undisturbed others (batch_ids g files)"
    and k: "k \<le> length (validFiles files)"
  shows "records_of (batch_ids g files) (handleFiles others P g files s ! k)
           = batch_state P g (validFiles files) k"
  using k
proof (induction k)
  case 0
  show ?case
    unfolding handleFiles_0 [OF ne] using records_of_start [of g "validFiles files" s P] fr
    by (simp add: batch_ids_def)
next
  case (Suc k)
  then have k: "k < length (validFiles files)" and IH: "records_of (batch_ids g files) (handleFiles others P g files s ! k)
           = batch_state P g (validFiles files) k" by simp_all
  from u k have q: "list_all (leaves_alone (batch_ids g files)) (others k)"
    by (simp add: undisturbed_def list_all_iff batch_ids_def)
  from d have d': "distinct (map g [0..<length (validFiles files)])" by (simp add: batch_ids_def)
  show ?case
    unfolding handleFiles_Suc [OF ne k] records_of_loop_body [of "batch_ids g files" others k, OF q] IH
      fst_conv snd_conv
    by (rule batch_state_step [OF d' k])
qed

lemma handleFiles_outside:
  assumes ne: "validFiles files \<noteq> []" and k: "k < length (validFiles files)"
  shows "records_outside (batch_ids g files) (handleFiles others P g files s ! Suc k)
           = records_outside (batch_ids g files) (fold other_handler (others k) (handleFiles others P g files s ! k))"
proof -
  from k have "snd (validFiles files ! k, g k) \<in> set (batch_ids g files)"
    by (simp add: batch_ids_def)
  from records_outside_loop_body [OF this] show ?thesis
    unfolding handleFiles_Suc [OF ne k] .
qed

lemma handleFiles_last:
  assumes "validFiles files \<noteq> []"
  shows "last (handleFiles others P g files s) = handleFiles others P g files s ! length (validFiles files)"
proof -
  from handleFiles_length [OF assms, of others P g s]
  have "handleFiles others P g files s \<noteq> []" by auto
  then show ?thesis
    by (simp add: last_conv_nth handleFiles_length [OF assms])
qed

lemma batch_state_final:
  "batch_state P g fs (length fs) = map (\<lambda>(j, f). settle (P j f) (new_image (g j) f)) (enumerate 0 fs)"
  unfolding batch_state_def
  by (rule map_cong [OF refl]) (auto simp: in_set_enumerate_eq)

lemma batch_state_final_names: "map originalName (batch_state P g fs (length fs)) = map name fs"
proof (rule nth_equalityI)
  show "length (map originalName (batch_state P g fs (length fs))) = length (map name fs)"
    by (simp add: batch_state_length)
next
  fix j assume "j < length (map originalName (batch_state P g fs (length fs)))"
  then have j: "j < length fs" by (simp add: batch_state_length)
  then show "map originalName (batch_state P g fs (length fs)) ! j = map name fs ! j"
    by (simp add: batch_state_length batch_state_nth originalName_settle new_image_def del: settle.simps)
qed

lemma batch_state_final_statuses:
  "map status (batch_state P g fs (length fs))
     = map (\<lambda>(j, f). case P j f of Fulfilled r \<Rightarrow> Done | Rejected \<Rightarrow> Error) (enumerate 0 fs)"
  unfolding batch_state_final by (simp add: status_settle split_beta)

lemma fold_revokes:
  "fold run_effect (concat (map (\<lambda>img. if processedUrl img \<noteq> [] then [RevokeObjectURL (processedUrl img)] else []) xs)) s
     = s\<lparr>revoked_urls := revoked_urls s @ filter (\<lambda>u. u \<noteq> []) (map processedUrl xs)\<rparr>"
  by (induction xs arbitrary: s) simp_all

lemma handleClearAll_effects:
  "handleClearAll xs = map RevokeObjectURL (filter (\<lambda>u. u \<noteq> []) (map processedUrl xs))
                         @ [SetImages [], SetLightboxOpen False]"
  unfolding handleClearAll_def by (induction xs) simp_all

lemma clear_all_state:
  "other_handler Clear_All s
     = \<lparr>images_state = [], revoked_urls = revoked_urls s @ filter (\<lambda>u. u \<noteq> []) (map processedUrl (images_state s))\<rparr>"
  by (simp add: handleClearAll_def fold_revokes)

lemma records_of_subset: "set (records_of ids s) \<subseteq> set (images_state s)"
  by (auto simp: records_of_def)

subsection \<open>The sample batch\<close>

lemma sample_valid:
  "validFiles sample_files =
     [\<lparr>name = ''a.jpg'', type = ''image/jpeg'', bytes = [255, 216, 255, 224]\<rparr>,
      \<lparr>name = ''b.png'', type = ''image/png'', bytes = [137, 80, 78, 71]\<rparr>,
      \<lparr>name = ''c.jpg'', type = ''image/jpeg'', bytes = [255, 216, 255, 225]\<rparr>,
      \<lparr>name = ''c.jpg'', type = ''image/jpeg'', bytes = [0, 0, 0, 0]\<rparr>,
      \<lparr>name = ''e.webp'', type = ''image/webp'', bytes = [82, 73, 70, 70]\<rparr>]"
  by (simp add: validFiles_def sample_files_def)

lemma sample_ids: "batch_ids nat_toString sample_files = [''0'', ''1'', ''2'', ''3'', ''4'']"
  by code_simp

lemma sample_hyps:
  "validFiles sample_files \<noteq> []"
  "distinct (batch_ids nat_toString sample_files)"
  "set (batch_ids nat_toString sample_files) \<inter> image_id ` set (images_state initial_state) = {}"
  "undisturbed other_batch (batch_ids nat_toString sample_files)"
proof -
  show "validFiles sample_files \<noteq> []" by (simp add: sample_valid)
  show "distinct (batch_ids nat_toString sample_files)" by (simp add: sample_ids)
  show "set (batch_ids nat_toString sample_files) \<inter> image_id ` set (images_state initial_state) = {}"
    by (simp add: initial_state_def)
  show "undisturbed other_batch (batch_ids nat_toString sample_files)"
    unfolding sample_ids by code_simp
qed

lemma sample_statuses:
  "map (map status) (map images_state (handleFiles other_batch sample_pipeline nat_toString sample_files initial_state)) =
     [[Processing, Processing, Processing, Processing, Processing],
      [Done, Processing, Processing, Processing, Processing],
      [Done, Done, Processing, Processing, Processing, Processing],
      [Done, Done, Done, Processing, Processing, Processing],
      [Done, Done, Done, Error, Processing, Error],
      [Done, Done, Done, Error, Done, Error]]"
  by code_simp

lemma sample_cleared_statuses:
  "map (map status) (map images_state (handleFiles clear_during_third sample_pipeline nat_toString sample_files initial_state)) =
     [[Processing, Processing, Processing, Processing, Processing],
      [Done, Processing, Processing, Processing, Processing],
      [Done, Done, Processing, Processing, Processing],
      [], [], []]"
  by code_simp

lemma sample_cleared_revoked:
  "revoked_urls (other_handler Clear_All (last (handleFiles clear_during_third sample_pipeline nat_toString sample_files initial_state)))
     = [''blob:0'', ''blob:1'']"
  by code_simp

lemma sample_same_id_statuses:
  "map (map status) (map images_state (handleFiles no_other_call sample_pipeline same_id sample_files initial_state)) =
     [[Processing, Processing, Processing, Processing, Processing],
      [Done, Done, Done, Done, Done],
      [Done, Done, Done, Done, Done],
      [Done, Done, Done, Done, Done],
      [Error, Error, Error, Error, Error],
      [Done, Done, Done, Done, Done]]"
  by code_simp

lemma sample_clear:
  "handleClearAll (images_state (last (handleFiles other_batch sample_pipeline nat_toString sample_files initial_state)))
     = [RevokeObjectURL ''blob:0'', RevokeObjectURL ''blob:1'', RevokeObjectURL ''blob:2'',
        RevokeObjectURL ''blob:4'', SetImages [], SetLightboxOpen False]"
  by code_simp

lemma sample_cleared_trace:
  "map images_state (handleFiles clear_during_third sample_pipeline nat_toString sample_files initial_state) ! 3 = []
   \<and> map status (images_state (last (handleFiles clear_during_third sample_pipeline nat_toString sample_files initial_state))) = []"
  by code_simp

lemma sample_same_id_last:
  "map status (images_state (handleFiles no_other_call sample_pipeline same_id sample_files initial_state ! 4))
     = [Error, Error, Error, Error, Error]
   \<and> map status (images_state (last (handleFiles no_other_call sample_pipeline same_id sample_files initial_state)))
     = [Done, Done, Done, Done, Done]"
  by code_simp

lemma sample_third_call:
  "sample_pipeline 2 (validFiles sample_files ! 2)
     = Fulfilled \<lparr>url = ''blob:2'', result_timestamp = ''2024-03-05 09:07:03'', result_usedFallback = False\<rparr>"
  by (simp add: sample_valid sample_pipeline_def nat_toString.simps)

subsection \<open>Claims on the batch orchestrator\<close>

text \<open>
  Claim C8, as the code has it. Take a batch with at least one valid file, whose generated
  ids differ from each other and from the ids already in the collection, and which is
  undisturbed: while it runs, \<open>Clear All\<close> is not used, and the records that other batches
  append or mark carry other ids. Then the loop runs through all the valid files,
  whatever fails. After \<open>k\<close> iterations the records of the batch are, in the order of
  submission, the first \<open>k\<close> of them settled and the others still \<open>Processing\<close>. A record
  is settled by the outcome of its own call of the pipeline alone: \<open>Done\<close> when the promise
  was fulfilled, \<open>Error\<close> when it was rejected. So in the last state the statuses are, file
  by file and in the order of submission, \<open>Done\<close> or \<open>Error\<close> as the file itself fared.
  And whatever the other handlers do, an iteration changes no record outside the batch:
  those are as the other handlers have left them.
\<close>

theorem handleFiles_independent_in_order:
  assumes "validFiles files \<noteq> []"
    and "distinct (batch_ids gen_id files)"
    and "set (batch_ids gen_id files) \<inter> image_id ` set (images_state s) = {}"
    and "undisturbed others (batch_ids gen_id files)"
  shows "length (handleFiles others processImage gen_id files s) = Suc (length (validFiles files))
       \<and> (\<forall>k\<le>length (validFiles files).
             records_of (batch_ids gen_id files) (handleFiles others processImage gen_id files s ! k)
               = batch_state processImage gen_id (validFiles files) k)
       \<and> map originalName (records_of (batch_ids gen_id files) (last (handleFiles others processImage gen_id files s)))
           = map name (validFiles files)
       \<and> map status (records_of (batch_ids gen_id files) (last (handleFiles others processImage gen_id files s)))
           = map (\<lambda>(j, f). case processImage j f of Fulfilled r \<Rightarrow> Done | Rejected \<Rightarrow> Error)
               (enumerate 0 (validFiles files))
       \<and> (\<forall>k<length (validFiles files).
             records_outside (batch_ids gen_id files) (handleFiles others processImage gen_id files s ! Suc k)
               = records_outside (batch_ids gen_id files)
                   (fold other_handler (others k) (handleFiles others processImage gen_id files s ! k)))"
proof (intro conjI allI impI)
  show "length (handleFiles others processImage gen_id files s) = Suc (length (validFiles files))"
    by (rule handleFiles_length [OF assms(1)])
next
  fix k assume "k \<le> length (validFiles files)"
  then show "records_of (batch_ids gen_id files) (handleFiles others processImage gen_id files s ! k)
               = batch_state processImage gen_id (validFiles files) k"
    by (rule handleFiles_records [OF assms])
next
  have l: "records_of (batch_ids gen_id files) (last (handleFiles others processImage gen_id files s))
             = batch_state processImage gen_id (validFiles files) (length (validFiles files))"
    unfolding handleFiles_last [OF assms(1)] by (rule handleFiles_records [OF assms order_refl])
  show "map originalName (records_of (batch_ids gen_id files) (last (handleFiles others processImage gen_id files s)))
           = map name (validFiles files)"
    unfolding l by (rule batch_state_final_names)
  show "map status (records_of (batch_ids gen_id files) (last (handleFiles others processImage gen_id files s)))
           = map (\<lambda>(j, f). case processImage j f of Fulfilled r \<Rightarrow> Done | Rejected \<Rightarrow> Error)
               (enumerate 0 (validFiles files))"
    unfolding l by (rule batch_state_final_statuses)
next
  fix k assume "k < length (validFiles files)"
  then show "records_outside (batch_ids gen_id files) (handleFiles others processImage gen_id files s ! Suc k)
               = records_outside (batch_ids gen_id files)
                   (fold other_handler (others k) (handleFiles others processImage gen_id files s ! k))"
    by (rule handleFiles_outside [OF assms(1)])
qed

text \<open>The theorem of claim C8 on the sample batch, while another batch appends a record
  and marks it as failed: one file that cannot be decoded among five images gives one
  \<open>Error\<close> and four \<open>Done\<close>, in the order of submission.\<close>

theorem handleFiles_independent_in_order_witness:
  "validFiles sample_files \<noteq> []
   \<and> distinct (batch_ids nat_toString sample_files)
   \<and> set (batch_ids nat_toString sample_files) \<inter> image_id ` set (images_state initial_state) = {}
   \<and> undisturbed other_batch (batch_ids nat_toString sample_files)
   \<and> map originalName (records_of (batch_ids nat_toString sample_files)
        (last (handleFiles other_batch sample_pipeline nat_toString sample_files initial_state)))
       = [''a.jpg'', ''b.png'', ''c.jpg'', ''c.jpg'', ''e.webp'']
   \<and> map status (records_of (batch_ids nat_toString sample_files)
        (last (handleFiles other_batch sample_pipeline nat_toString sample_files initial_state)))
       = [Done, Done, Done, Error, Done]"
proof -
  note t = handleFiles_independent_in_order [OF sample_hyps, of sample_pipeline]
  have c1: "map originalName (records_of (batch_ids nat_toString sample_files)
        (last (handleFiles other_batch sample_pipeline nat_toString sample_files initial_state)))
             = map name (validFiles sample_files)"
    by (rule t [THEN conjunct2, THEN conjunct2, THEN conjunct1])
  have c2: "map status (records_of (batch_ids nat_toString sample_files)
        (last (handleFiles other_batch sample_pipeline nat_toString sample_files initial_state)))
       = map (\<lambda>(j, f). case sample_pipeline j f of Fulfilled r \<Rightarrow> Done | Rejected \<Rightarrow> Error)
           (enumerate 0 (validFiles sample_files))"
    by (rule t [THEN conjunct2, THEN conjunct2, THEN conjunct2, THEN conjunct1])
  have e1: "map name (validFiles sample_files) = [''a.jpg'', ''b.png'', ''c.jpg'', ''c.jpg'', ''e.webp'']"
    by (simp add: sample_valid)
  have e2: "map (\<lambda>(j, f). case sample_pipeline j f of Fulfilled r \<Rightarrow> Done | Rejected \<Rightarrow> Error)
              (enumerate 0 (validFiles sample_files)) = [Done, Done, Done, Error, Done]"
    by (simp add: sample_valid sample_pipeline_def)
  show ?thesis
    apply (intro conjI)
         apply (rule sample_hyps(1))
        apply (rule sample_hyps(2))
       apply (rule sample_hyps(3))
      apply (rule sample_hyps(4))
     apply (simp only: c1 e1)
    apply (simp only: c2 e2)
    done
qed

text \<open>
  Claim C8 as the specification states it, for every batch, fails in two ways. When
  \<open>Clear All\<close> is clicked during the third wait of the sample batch, the collection is
  emptied and stays empty: no record is left to be marked, and the batch ends with no
  \<open>Done\<close> and no \<open>Error\<close> at all. When the five ids are equal, every update marks all five
  records: after the iteration of the file that cannot be decoded all five are \<open>Error\<close>,
  and after the last iteration all five are \<open>Done\<close>, that file included.
\<close>

theorem handleFiles_cleared_or_same_id_counterexample:
  "map images_state (handleFiles clear_during_third sample_pipeline nat_toString sample_files initial_state) ! 3 = []
   \<and> map status (images_state (last (handleFiles clear_during_third sample_pipeline nat_toString sample_files initial_state))) = []
   \<and> map status (images_state (handleFiles no_other_call sample_pipeline same_id sample_files initial_state ! 4))
       = [Error, Error, Error, Error, Error]
   \<and> map status (images_state (last (handleFiles no_other_call sample_pipeline same_id sample_files initial_state)))
       = [Done, Done, Done, Done, Done]"
  using sample_cleared_trace sample_same_id_last by (intro conjI) simp_all

text \<open>
  Claim C9, as the code has it. Under the same conditions, the record of the \<open>j\<close>-th valid
  file is the record created at submission, with status \<open>Processing\<close>, in every state up
  to the \<open>j\<close>-th iteration, and its settled record, with status \<open>Done\<close> or \<open>Error\<close>, in
  every state after it: it changes once and never again. When \<open>Clear All\<close> is used on the
  state the batch has ended in, \<open>handleClearAll\<close> revokes the URL of every record of the
  collection that has one, and only then sets the collection to empty; the URL of every
  file of the batch whose call was fulfilled is among them.
\<close>

theorem work_item_lifecycle:
  assumes "validFiles files \<noteq> []"
    and "distinct (batch_ids gen_id files)"
    and "set (batch_ids gen_id files) \<inter> image_id ` set (images_state s) = {}"
    and "undisturbed others (batch_ids gen_id files)"
  shows "(\<forall>j<length (validFiles files). \<forall>k\<le>length (validFiles files).
            records_of (batch_ids gen_id files) (handleFiles others processImage gen_id files s ! k) ! j
              = (if k \<le> j then new_image (gen_id j) (validFiles files ! j)
                 else settle (processImage j (validFiles files ! j)) (new_image (gen_id j) (validFiles files ! j))))
       \<and> (\<forall>i f. status (new_image i f) = Processing)
       \<and> (\<forall>out img. status (settle out img) = Done \<or> status (settle out img) = Error)
       \<and> handleClearAll (images_state (last (handleFiles others processImage gen_id files s)))
           = map RevokeObjectURL
               (filter (\<lambda>u. u \<noteq> []) (map processedUrl (images_state (last (handleFiles others processImage gen_id files s)))))
             @ [SetImages [], SetLightboxOpen False]
       \<and> (\<forall>j<length (validFiles files). \<forall>r. processImage j (validFiles files ! j) = Fulfilled r \<and> url r \<noteq> [] \<longrightarrow>
            url r \<in> set (filter (\<lambda>u. u \<noteq> [])
                       (map processedUrl (images_state (last (handleFiles others processImage gen_id files s))))))
       \<and> other_handler Clear_All (last (handleFiles others processImage gen_id files s))
           = \<lparr>images_state = [],
              revoked_urls = revoked_urls (last (handleFiles others processImage gen_id files s))
                @ filter (\<lambda>u. u \<noteq> []) (map processedUrl (images_state (last (handleFiles others processImage gen_id files s))))\<rparr>"
proof (intro conjI allI impI)
  fix j k assume j: "j < length (validFiles files)" and k: "k \<le> length (validFiles files)"
  show "records_of (batch_ids gen_id files) (handleFiles others processImage gen_id files s ! k) ! j
              = (if k \<le> j then new_image (gen_id j) (validFiles files ! j)
                 else settle (processImage j (validFiles files ! j)) (new_image (gen_id j) (validFiles files ! j)))"
    unfolding handleFiles_records [OF assms k] batch_state_nth [OF j]
    by (simp add: not_le [symmetric] del: settle.simps)
next
  fix i f show "status (new_image i f) = Processing" by (simp add: new_image_def)
next
  fix out img show "status (settle out img) = Done \<or> status (settle out img) = Error"
    by (simp add: status_settle split: settled.splits)
next
  show "handleClearAll (images_state (last (handleFiles others processImage gen_id files s)))
           = map RevokeObjectURL
               (filter (\<lambda>u. u \<noteq> []) (map processedUrl (images_state (last (handleFiles others processImage gen_id files s)))))
             @ [SetImages [], SetLightboxOpen False]"
    by (rule handleClearAll_effects)
next
  fix j r
  assume j: "j < length (validFiles files)"
    and "processImage j (validFiles files ! j) = Fulfilled r \<and> url r \<noteq> []"
  then have f: "processImage j (validFiles files ! j) = Fulfilled r" and u: "url r \<noteq> []" by simp_all
  let ?last = "last (handleFiles others processImage gen_id files s)"
  have l: "records_of (batch_ids gen_id files) ?last
             = batch_state processImage gen_id (validFiles files) (length (validFiles files))"
    unfolding handleFiles_last [OF assms(1)] by (rule handleFiles_records [OF assms order_refl])
  from j have "batch_state processImage gen_id (validFiles files) (length (validFiles files)) ! j
      \<in> set (batch_state processImage gen_id (validFiles files) (length (validFiles files)))"
    by (simp add: batch_state_length)
  with l records_of_subset [of "batch_ids gen_id files" ?last]
  have "batch_state processImage gen_id (validFiles files) (length (validFiles files)) ! j \<in> set (images_state ?last)"
    by auto
  moreover have "processedUrl (batch_state processImage gen_id (validFiles files) (length (validFiles files)) ! j) = url r"
    using j by (simp add: batch_state_nth f)
  ultimately have "url r \<in> processedUrl ` set (images_state ?last)" by (metis imageI)
  with u show "url r \<in> set (filter (\<lambda>u. u \<noteq> []) (map processedUrl (images_state ?last)))" by simp
next
  show "other_handler Clear_All (last (handleFiles others processImage gen_id files s))
           = \<lparr>images_state = [],
              revoked_urls = revoked_urls (last (handleFiles others processImage gen_id files s))
                @ filter (\<lambda>u. u \<noteq> []) (map processedUrl (images_state (last (handleFiles others processImage gen_id files s))))\<rparr>"
    by (rule clear_all_state)
qed

text \<open>The theorem of claim C9 on the sample batch: the record of the file that cannot be
  decoded, before, at and after its own iteration, and the URL of the third file.\<close>

theorem work_item_lifecycle_witness:
  "validFiles sample_files \<noteq> []
   \<and> distinct (batch_ids nat_toString sample_files)
   \<and> set (batch_ids nat_toString sample_files) \<inter> image_id ` set (images_state initial_state) = {}
   \<and> undisturbed other_batch (batch_ids nat_toString sample_files)
   \<and> (3::nat) < length (validFiles sample_files) \<and> (5::nat) \<le> length (validFiles sample_files)
   \<and> status (records_of (batch_ids nat_toString sample_files)
        (handleFiles other_batch sample_pipeline nat_toString sample_files initial_state ! 3) ! 3) = Processing
   \<and> status (records_of (batch_ids nat_toString sample_files)
        (handleFiles other_batch sample_pipeline nat_toString sample_files initial_state ! 4) ! 3) = Error
   \<and> status (records_of (batch_ids nat_toString sample_files)
        (handleFiles other_batch sample_pipeline nat_toString sample_files initial_state ! 5) ! 3) = Error
   \<and> (2::nat) < length (validFiles sample_files)
   \<and> sample_pipeline 2 (validFiles sample_files ! 2)
        = Fulfilled \<lparr>url = ''blob:2'', result_timestamp = ''2024-03-05 09:07:03'', result_usedFallback = False\<rparr>
   \<and> ''blob:2'' \<noteq> []
   \<and> ''blob:2'' \<in> set (revoked_urls (other_handler Clear_All
        (last (handleFiles other_batch sample_pipeline nat_toString sample_files initial_state))))"
proof -
  have len: "length (validFiles sample_files) = 5" by (simp add: sample_valid)
  have j: "(3::nat) < length (validFiles sample_files)" and k3: "(3::nat) \<le> length (validFiles sample_files)"
    and k4: "(4::nat) \<le> length (validFiles sample_files)" and k5: "(5::nat) \<le> length (validFiles sample_files)"
    and j2: "(2::nat) < length (validFiles sample_files)"
    by (simp_all add: len)
  note w = work_item_lifecycle [OF sample_hyps, of sample_pipeline]
  note t = w [THEN conjunct1, rule_format, OF j]
  have f: "validFiles sample_files ! 3 = \<lparr>name = ''c.jpg'', type = ''image/jpeg'', bytes = [0, 0, 0, 0]\<rparr>"
    by (simp add: sample_valid)
  have s3: "status (records_of (batch_ids nat_toString sample_files)
        (handleFiles other_batch sample_pipeline nat_toString sample_files initial_state ! 3) ! 3) = Processing"
    using t [OF k3] by (simp add: new_image_def)
  have s4: "status (records_of (batch_ids nat_toString sample_files)
        (handleFiles other_batch sample_pipeline nat_toString sample_files initial_state ! 4) ! 3) = Error"
    using t [OF k4] by (simp add: f status_settle sample_pipeline_def del: settle.simps)
  have s5: "status (records_of (batch_ids nat_toString sample_files)
        (handleFiles other_batch sample_pipeline nat_toString sample_files initial_state ! 5) ! 3) = Error"
    using t [OF k5] by (simp add: f status_settle sample_pipeline_def del: settle.simps)
  have p: "sample_pipeline 2 (validFiles sample_files ! 2)
        = Fulfilled \<lparr>url = ''blob:2'', result_timestamp = ''2024-03-05 09:07:03'', result_usedFallback = False\<rparr>"
    by (simp add: sample_valid sample_pipeline_def nat_toString.simps)
  have ne: "''blob:2'' \<noteq> []" by simp
  from w [THEN conjunct2, THEN conjunct2, THEN conjunct2, THEN conjunct2, THEN conjunct1, rule_format, OF j2, of
      "\<lparr>url = ''blob:2'', result_timestamp = ''2024-03-05 09:07:03'', result_usedFallback = False\<rparr>"] p
  have m: "''blob:2'' \<in> set (filter (\<lambda>u. u \<noteq> []) (map processedUrl (images_state
      (last (handleFiles other_batch sample_pipeline nat_toString sample_files initial_state)))))"
    by simp
  have r: "''blob:2'' \<in> set (revoked_urls (other_handler Clear_All
        (last (handleFiles other_batch sample_pipeline nat_toString sample_files initial_state))))"
    unfolding w [THEN conjunct2, THEN conjunct2, THEN conjunct2, THEN conjunct2, THEN conjunct2]
    using m by simp
  from sample_hyps j k5 s3 s4 s5 j2 p ne r show ?thesis by (intro conjI)
qed

text \<open>
  Claim C9 as the specification states it fails when the collection is cleared while the
  batch runs, and when ids are equal. With \<open>Clear All\<close> clicked during the third wait of
  the sample batch, the last three records are discarded while they are \<open>Processing\<close>,
  and never become \<open>Done\<close> or \<open>Error\<close>; the third call of the pipeline is fulfilled after
  that, with the URL \<open>blob:2\<close>, and this URL is not revoked, neither then nor by a later
  \<open>Clear All\<close>. With five equal ids, each record is changed at every iteration, from
  \<open>Done\<close> to \<open>Error\<close> and back to \<open>Done\<close>.
\<close>

theorem work_item_cleared_while_pending_counterexample:
  "map (map status) (map images_state
       (handleFiles clear_during_third sample_pipeline nat_toString sample_files initial_state))
     = [[Processing, Processing, Processing, Processing, Processing],
        [Done, Processing, Processing, Processing, Processing],
        [Done, Done, Processing, Processing, Processing],
        [], [], []]
   \<and> sample_pipeline 2 (validFiles sample_files ! 2)
        = Fulfilled \<lparr>url = ''blob:2'', result_timestamp = ''2024-03-05 09:07:03'', result_usedFallback = False\<rparr>
   \<and> revoked_urls (other_handler Clear_All
        (last (handleFiles clear_during_third sample_pipeline nat_toString sample_files initial_state)))
       = [''blob:0'', ''blob:1'']
   \<and> map (map status) (map images_state
       (handleFiles no_other_call sample_pipeline same_id sample_files initial_state))
     = [[Processing, Processing, Processing, Processing, Processing],
        [Done, Done, Done, Done, Done],
        [Done, Done, Done, Done, Done],
        [Done, Done, Done, Done, Done],
        [Error, Error, Error, Error, Error],
        [Done, Done, Done, Done, Done]]"
  by (simp only: sample_cleared_statuses sample_cleared_revoked sample_third_call sample_same_id_statuses simp_thms)

end
